theory Spec2Isabelle
  imports Main "HOL-Library.Word" "HOL-Library.Sublist"
begin

section \<open>JavaScript strings and numbers\<close>

text \<open>
  A JavaScript string is a sequence of UTF-16 code units, and \<open>length\<close>, \<open>slice\<close>,
  indexing and the regular expressions of the source all count code units. A string is
  therefore a list of 16-bit words. The literals of the source are ASCII apart from the
  em dash U+2014 of the title, which is the single code unit \<open>0x2014\<close>.

  The numbers of a summary are JavaScript numbers that only ever hold integers; they are
  modelled by \<open>int\<close>. A double represents every integer of magnitude up to \<open>2^53\<close>
  exactly, and within this range \<open>parseInt\<close> and the template literal behave as \<open>parseInt\<close>
  and \<open>showInt\<close> below. Beyond it the source rounds (\<open>parseInt\<close>) and, from \<open>10^21\<close> on,
  prints exponent notation, which the model does not follow: a statement about the value
  or the digits of a number read from the text is made for this range only. The counters
  that the parser increments stay in it, being bounded by the number of lines.
\<close>

type_synonym jschar = "16 word"
type_synonym jsstring = "jschar list"

definition cu :: "char \<Rightarrow> jschar" where
  "cu c = of_char c"

definition lit :: "string \<Rightarrow> jsstring" where
  "lit s = map cu s"

text \<open>What \<open>\s\<close> matches and \<open>trim\<close> strips: WhiteSpace and LineTerminator of ECMAScript.\<close>

definition isSpace :: "jschar \<Rightarrow> bool" where
  "isSpace c \<longleftrightarrow>
     c \<in> {0x09, 0x0A, 0x0B, 0x0C, 0x0D, 0x20, 0xA0, 0x1680, 0x2028, 0x2029,
          0x202F, 0x205F, 0x3000, 0xFEFF}
     \<or> (0x2000 \<le> c \<and> c \<le> 0x200A)"

text \<open>What \<open>.\<close> does not match (no \<open>s\<close> flag): the line terminators.\<close>

definition isLineTerminator :: "jschar \<Rightarrow> bool" where
  "isLineTerminator c \<longleftrightarrow> c \<in> {0x0A, 0x0D, 0x2028, 0x2029}"

text \<open>What \<open>\d\<close> matches: the ASCII digits.\<close>

definition isDigit :: "jschar \<Rightarrow> bool" where
  "isDigit c \<longleftrightarrow> 0x30 \<le> c \<and> c \<le> 0x39"

definition startsWith :: "jsstring \<Rightarrow> jsstring \<Rightarrow> bool" where
  "startsWith s p \<longleftrightarrow> take (length p) s = p"

definition trim :: "jsstring \<Rightarrow> jsstring" where
  "trim s = rev (dropWhile isSpace (rev (dropWhile isSpace s)))"

text \<open>\<open>Array.prototype.join\<close>.\<close>

fun join :: "jsstring \<Rightarrow> jsstring list \<Rightarrow> jsstring" where
  "join sep [] = []"
| "join sep [x] = x"
| "join sep (x # y # ys) = x @ sep @ join sep (y # ys)"

text \<open>\<open>xs[i]\<close>: \<open>undefined\<close> (here \<open>None\<close>) outside the array.\<close>

definition at :: "'a list \<Rightarrow> int \<Rightarrow> 'a option" where
  "at xs i = (if 0 \<le> i \<and> i < int (length xs) then Some (xs ! nat i) else None)"

text \<open>
  Number to string, as a template literal does it for an integer of magnitude below
  \<open>10^21\<close> (from there on the source prints exponent notation).
\<close>

fun showNat :: "nat \<Rightarrow> jsstring" where
  "showNat n = (if n < 10 then [of_nat (48 + n)]
                else showNat (n div 10) @ [of_nat (48 + n mod 10)])"

declare showNat.simps [simp del]

definition showInt :: "int \<Rightarrow> jsstring" where
  "showInt n = (if n < 0 then cu CHR ''-'' # showNat (nat (- n)) else showNat (nat n))"

text \<open>
  \<open>parseInt(s, 10)\<close>: leading white space is skipped, one sign is accepted, the longest
  run of digits is read; \<open>NaN\<close> (here \<open>None\<close>) when there is no digit. The result is the
  integer the digits denote, which is what the source returns up to a magnitude of \<open>2^53\<close>;
  a longer run is rounded to a double there and is not followed here.
\<close>

definition digitsValue :: "jsstring \<Rightarrow> int" where
  "digitsValue ds = foldl (\<lambda>a c. 10 * a + (uint c - 48)) 0 ds"

definition parseInt :: "jsstring \<Rightarrow> int option" where
  "parseInt s =
     (let t = dropWhile isSpace s;
          neg = (t \<noteq> [] \<and> hd t = cu CHR ''-'');
          u = (if t \<noteq> [] \<and> (hd t = cu CHR ''-'' \<or> hd t = cu CHR ''+'') then tl t else t);
          ds = takeWhile isDigit u
      in if ds = [] then None
         else Some (if neg then - digitsValue ds else digitsValue ds))"

text \<open>\<open>x || 0\<close> for a number \<open>x\<close>: \<open>NaN\<close> and \<open>0\<close> are falsy.\<close>

definition orZero :: "int option \<Rightarrow> int" where
  "orZero x = (case x of None \<Rightarrow> 0 | Some n \<Rightarrow> n)"

section \<open>The status summary\<close>

record Staged =
  added :: int
  modified :: int
  deleted :: int
  renamed :: int
  copied :: int

record Unstaged =
  modified :: int
  deleted :: int

record Samples =
  added :: "jsstring list"
  modified :: "jsstring list"
  deleted :: "jsstring list"
  renamed :: "jsstring list"
  untracked :: "jsstring list"

record StatusSummary =
  branch :: "jsstring option"
  ahead :: int
  behind :: int
  staged :: Staged
  unstaged :: Unstaged
  untracked :: int
  conflicts :: int
  samples :: Samples

record MessageOptions =
  stagedOnly :: "bool option"
  commit :: "bool option"
  simple :: "bool option"
  verbose :: "bool option"
  template :: "jsstring option"

definition MAX_FILE_SAMPLES :: nat where
  "MAX_FILE_SAMPLES = 10"

section \<open>parseStatus\<close>

text \<open>\<open>output.split(/\r?\n/)\<close>: a line ends at LF or at CR LF; a lone CR stays in its line.\<close>

fun consHead :: "'a \<Rightarrow> 'a list list \<Rightarrow> 'a list list" where
  "consHead c [] = [[c]]"
| "consHead c (l # ls) = (c # l) # ls"

fun splitLines :: "jsstring \<Rightarrow> jsstring list" where
  "splitLines [] = [[]]"
| "splitLines [c] = (if c = 0x0A then [[], []] else [[c]])"
| "splitLines (c # d # cs) =
     (if c = 0x0D \<and> d = 0x0A then [] # splitLines cs
      else if c = 0x0A then [] # splitLines (d # cs)
      else consHead c (splitLines (d # cs)))"

text \<open>\<open>line.split(/\s+/)\<close>: every maximal run of white space separates two fields; a run
  at the start or at the end of the line leaves an empty first or last field.\<close>

function splitWs :: "jsstring \<Rightarrow> jsstring list" where
  "splitWs [] = [[]]"
| "splitWs (c # cs) =
     (if isSpace c then [] # splitWs (dropWhile isSpace cs)
      else consHead c (splitWs cs))"
  by pat_completeness auto
termination
  by (relation "measure length") (auto simp: length_dropWhile_le less_Suc_eq_le)

text \<open>
  The regular expression \<open>/\+(-?\d+)\s+\-(-?\d+)/\<close>, searched from the left.
  \<open>signedDigits\<close> is \<open>(-?\d+)\<close> at the start of a string: the captured text and the rest.
  Every quantifier is greedy and none can give a character back with success: a shorter
  run of digits or of white space leaves a digit or a white space character where the
  pattern wants something else, and a \<open>-\<close> that \<open>-?\<close> skips is not a digit.
\<close>

definition signedDigits :: "jsstring \<Rightarrow> (jsstring \<times> jsstring) option" where
  "signedDigits s =
     (let sg = (if s \<noteq> [] \<and> hd s = cu CHR ''-'' then [cu CHR ''-''] else []);
          r = (if s \<noteq> [] \<and> hd s = cu CHR ''-'' then tl s else s);
          ds = takeWhile isDigit r
      in if ds = [] then None else Some (sg @ ds, dropWhile isDigit r))"

definition abMatchAt :: "jsstring \<Rightarrow> (jsstring \<times> jsstring) option" where
  "abMatchAt s =
     (case s of [] \<Rightarrow> None
      | c # r \<Rightarrow>
          if c \<noteq> cu CHR ''+'' then None
          else (case signedDigits r of None \<Rightarrow> None
                | Some (m1, r1) \<Rightarrow>
                    if takeWhile isSpace r1 = [] then None
                    else (case dropWhile isSpace r1 of [] \<Rightarrow> None
                          | d # r2 \<Rightarrow>
                              if d \<noteq> cu CHR ''-'' then None
                              else (case signedDigits r2 of None \<Rightarrow> None
                                    | Some (m2, r3) \<Rightarrow> Some (m1, m2)))))"

fun abSearch :: "jsstring \<Rightarrow> (jsstring \<times> jsstring) option" where
  "abSearch [] = None"
| "abSearch (c # cs) =
     (case abMatchAt (c # cs) of Some m \<Rightarrow> Some m | None \<Rightarrow> abSearch cs)"

text \<open>
  The only place where the loop could leave the summary not fully populated: a path read
  from \<open>parts\<close> that is \<open>undefined\<close> would be stored in a sample list of strings.
\<close>

datatype error = UndefinedPath

definition initialSummary :: StatusSummary where
  "initialSummary =
     \<lparr> branch = None, ahead = 0, behind = 0,
       staged = \<lparr> Staged.added = 0, Staged.modified = 0, Staged.deleted = 0,
                  Staged.renamed = 0, Staged.copied = 0 \<rparr>,
       unstaged = \<lparr> Unstaged.modified = 0, Unstaged.deleted = 0 \<rparr>,
       untracked = 0, conflicts = 0,
       samples = \<lparr> Samples.added = [], Samples.modified = [], Samples.deleted = [],
                   Samples.renamed = [], Samples.untracked = [] \<rparr> \<rparr>"

text \<open>\<open>if (list.length < CONSTANTS.MAX_FILE_SAMPLES) list.push(f)\<close>.\<close>

definition pushSample :: "jsstring list \<Rightarrow> jsstring \<Rightarrow> jsstring list" where
  "pushSample list f = (if length list < MAX_FILE_SAMPLES then list @ [f] else list)"

text \<open>\<open>origPath ? `${origPath} -> ${filePath}` : filePath\<close>; the empty string is falsy.\<close>

definition renameSample :: "jsstring option \<Rightarrow> jsstring \<Rightarrow> jsstring" where
  "renameSample origPath filePath =
     (case origPath of
        None \<Rightarrow> filePath
      | Some p \<Rightarrow> if p = [] then filePath else p @ lit '' -> '' @ filePath)"

text \<open>The block under \<open>// Staged changes\<close>.\<close>

definition stagedChange ::
  "jschar option \<Rightarrow> jsstring option \<Rightarrow> jsstring \<Rightarrow> StatusSummary \<Rightarrow> StatusSummary" where
  "stagedChange indexStatus origPath filePath summary =
     (if indexStatus = Some (cu CHR ''A'') then
        summary\<lparr> staged := (staged summary)\<lparr> Staged.added := Staged.added (staged summary) + 1 \<rparr>,
                 samples := (samples summary)\<lparr> Samples.added :=
                     pushSample (Samples.added (samples summary)) filePath \<rparr> \<rparr>
      else if indexStatus = Some (cu CHR ''M'') then
        summary\<lparr> staged := (staged summary)\<lparr> Staged.modified := Staged.modified (staged summary) + 1 \<rparr>,
                 samples := (samples summary)\<lparr> Samples.modified :=
                     pushSample (Samples.modified (samples summary)) filePath \<rparr> \<rparr>
      else if indexStatus = Some (cu CHR ''D'') then
        summary\<lparr> staged := (staged summary)\<lparr> Staged.deleted := Staged.deleted (staged summary) + 1 \<rparr>,
                 samples := (samples summary)\<lparr> Samples.deleted :=
                     pushSample (Samples.deleted (samples summary)) filePath \<rparr> \<rparr>
      else if indexStatus = Some (cu CHR ''R'') then
        summary\<lparr> staged := (staged summary)\<lparr> Staged.renamed := Staged.renamed (staged summary) + 1 \<rparr>,
                 samples := (samples summary)\<lparr> Samples.renamed :=
                     pushSample (Samples.renamed (samples summary)) (renameSample origPath filePath) \<rparr> \<rparr>
      else if indexStatus = Some (cu CHR ''C'') then
        summary\<lparr> staged := (staged summary)\<lparr> Staged.copied := Staged.copied (staged summary) + 1 \<rparr>,
                 samples := (samples summary)\<lparr> Samples.renamed :=
                     pushSample (Samples.renamed (samples summary)) (renameSample origPath filePath) \<rparr> \<rparr>
      else summary)"

text \<open>The block under \<open>// Unstaged changes\<close>.\<close>

definition unstagedChange :: "jschar option \<Rightarrow> jsstring \<Rightarrow> StatusSummary \<Rightarrow> StatusSummary" where
  "unstagedChange worktreeStatus filePath summary =
     (if worktreeStatus = Some (cu CHR ''M'') then
        summary\<lparr> unstaged := (unstaged summary)\<lparr> Unstaged.modified := Unstaged.modified (unstaged summary) + 1 \<rparr>,
                 samples := (samples summary)\<lparr> Samples.modified :=
                     pushSample (Samples.modified (samples summary)) filePath \<rparr> \<rparr>
      else if worktreeStatus = Some (cu CHR ''D'') then
        summary\<lparr> unstaged := (unstaged summary)\<lparr> Unstaged.deleted := Unstaged.deleted (unstaged summary) + 1 \<rparr>,
                 samples := (samples summary)\<lparr> Samples.deleted :=
                     pushSample (Samples.deleted (samples summary)) filePath \<rparr> \<rparr>
      else summary)"

text \<open>The branch \<open>type === '1' || type === '2'\<close> of the loop body, from \<open>parts\<close> on.\<close>

definition changedEntry :: "StatusSummary \<Rightarrow> jschar \<Rightarrow> jsstring list \<Rightarrow> error + StatusSummary" where
  "changedEntry summary type parts =
     (if length parts < 2 then Inr summary
      else (case at parts 1 of
              None \<Rightarrow> Inr summary
            | Some xy \<Rightarrow>
                if xy = [] \<or> length xy < 2 then Inr summary
                else
                  (let indexStatus = at xy 0;
                       worktreeStatus = at xy 1;
                       origPath = (if type = cu CHR ''2'' \<and> length parts \<ge> 3
                                   then at parts (int (length parts) - 2) else None)
                   in case at parts (int (length parts) - 1) of
                        None \<Rightarrow> Inl UndefinedPath
                      | Some filePath \<Rightarrow>
                          Inr (unstagedChange worktreeStatus filePath
                                (stagedChange indexStatus origPath filePath summary)))))"

text \<open>The body of \<open>for (const line of lines)\<close>; \<open>continue\<close> returns the summary as it is.\<close>

definition processLine :: "StatusSummary \<Rightarrow> jsstring \<Rightarrow> error + StatusSummary" where
  "processLine summary line =
     (if startsWith line (lit ''# '') then
        (if startsWith line (lit ''# branch.head '') then
           Inr (summary\<lparr> branch := Some (trim (drop (length ''# branch.head '') line)) \<rparr>)
         else if startsWith line (lit ''# branch.ab '') then
           (case abSearch (trim (drop (length ''# branch.ab '') line)) of
              None \<Rightarrow> Inr summary
            | Some (m1, m2) \<Rightarrow>
                Inr (summary\<lparr> ahead := orZero (parseInt m1), behind := orZero (parseInt m2) \<rparr>))
         else Inr summary)
      else (case at line 0 of
              None \<Rightarrow> Inr summary
            | Some type \<Rightarrow>
                if type = cu CHR ''?'' then
                  Inr (summary\<lparr> untracked := untracked summary + 1,
                                samples := (samples summary)\<lparr> Samples.untracked :=
                                    pushSample (Samples.untracked (samples summary)) (drop 2 line) \<rparr> \<rparr>)
                else if type = cu CHR ''!'' then Inr summary
                else if type = cu CHR ''u'' then
                  Inr (summary\<lparr> conflicts := conflicts summary + 1 \<rparr>)
                else if type = cu CHR ''1'' \<or> type = cu CHR ''2'' then
                  changedEntry summary type (splitWs line)
                else Inr summary))"

fun forLines :: "StatusSummary \<Rightarrow> jsstring list \<Rightarrow> error + StatusSummary" where
  "forLines summary [] = Inr summary"
| "forLines summary (line # lines) =
     (case processLine summary line of
        Inl e \<Rightarrow> Inl e
      | Inr summary' \<Rightarrow> forLines summary' lines)"

definition parseStatus :: "jsstring \<Rightarrow> error + StatusSummary" where
  "parseStatus output =
     forLines initialSummary (filter (\<lambda>line. line \<noteq> []) (splitLines output))"

section \<open>getChangedFiles\<close>

text \<open>
  The regular expression \<open>/^(.+?)\s*->\s*(.+)$/\<close> (no flags: \<open>^\<close> and \<open>$\<close> are the ends
  of the string, \<open>.\<close> is any code unit but a line terminator).

  \<open>tailGroup n t\<close> is \<open>\s*(.+)$\<close> on \<open>t\<close>, whose first \<open>n\<close> code units are white space:
  the greedy \<open>\s*\<close> first takes all \<open>n\<close> and gives them back one at a time until \<open>(.+)$\<close>
  matches what is left.
\<close>

definition dotPlusToEnd :: "jsstring \<Rightarrow> bool" where
  "dotPlusToEnd u \<longleftrightarrow> u \<noteq> [] \<and> \<not> list_ex isLineTerminator u"

fun tailGroup :: "nat \<Rightarrow> jsstring \<Rightarrow> jsstring option" where
  "tailGroup 0 t = (if dotPlusToEnd t then Some t else None)"
| "tailGroup (Suc n) t =
     (if dotPlusToEnd (drop (Suc n) t) then Some (drop (Suc n) t) else tailGroup n t)"

text \<open>
  \<open>arrowTail r\<close> is \<open>\s*->\s*(.+)$\<close> on \<open>r\<close>, giving the second group. The first \<open>\s*\<close>
  can only succeed with the whole run of white space, since \<open>-\<close> is not white space.
\<close>

definition arrowTail :: "jsstring \<Rightarrow> jsstring option" where
  "arrowTail r =
     (let r1 = dropWhile isSpace r
      in if startsWith r1 (lit ''->'')
         then tailGroup (length (takeWhile isSpace (drop 2 r1))) (drop 2 r1)
         else None)"

text \<open>
  \<open>renameFrom p r\<close>: the lazy \<open>(.+?)\<close> has taken \<open>p\<close> and takes one more code unit of \<open>r\<close>
  at a time, trying the rest of the pattern after each.
\<close>

fun renameFrom :: "jsstring \<Rightarrow> jsstring \<Rightarrow> (jsstring \<times> jsstring) option" where
  "renameFrom p [] = None"
| "renameFrom p (c # cs) =
     (if isLineTerminator c then None
      else (case arrowTail cs of
              Some u \<Rightarrow> Some (p @ [c], u)
            | None \<Rightarrow> renameFrom (p @ [c]) cs))"

definition renameMatch :: "jsstring \<Rightarrow> (jsstring \<times> jsstring) option" where
  "renameMatch f = renameFrom [] f"

text \<open>A \<open>Set\<close> of strings keeps its elements in the order of their first insertion.\<close>

definition setAdd :: "jsstring list \<Rightarrow> jsstring \<Rightarrow> jsstring list" where
  "setAdd files f = (if f \<in> set files then files else files @ [f])"

text \<open>The callback of \<open>summary.samples.renamed.forEach\<close>.\<close>

definition addRenamed :: "jsstring list \<Rightarrow> jsstring \<Rightarrow> jsstring list" where
  "addRenamed files f =
     (case renameMatch f of
        Some (m1, m2) \<Rightarrow> setAdd (setAdd files m1) m2
      | None \<Rightarrow> setAdd files f)"

definition getChangedFiles :: "StatusSummary \<Rightarrow> bool \<Rightarrow> jsstring list" where
  "getChangedFiles summary stagedOnly' =
     (if stagedOnly' then
        foldl addRenamed
          (foldl setAdd
            (foldl setAdd
              (foldl setAdd [] (Samples.added (samples summary)))
              (Samples.modified (samples summary)))
            (Samples.deleted (samples summary)))
          (Samples.renamed (samples summary))
      else
        foldl addRenamed
          (foldl setAdd []
            (Samples.added (samples summary) @ Samples.modified (samples summary)
               @ Samples.deleted (samples summary) @ Samples.untracked (samples summary)))
          (Samples.renamed (samples summary)))"

section \<open>buildSimpleMessage\<close>

text \<open>\<open>plural\<close> of the utilities: \<open>`${n} ${word}${n === 1 ? '' : 's'}`\<close>.\<close>

definition plural :: "int \<Rightarrow> jsstring \<Rightarrow> jsstring" where
  "plural n word = showInt n @ lit '' '' @ word @ (if n = 1 then [] else lit ''s'')"

text \<open>An optional boolean is truthy when it is \<open>true\<close>; \<open>undefined\<close> and \<open>false\<close> are falsy.\<close>

definition truthy :: "bool option \<Rightarrow> bool" where
  "truthy b \<longleftrightarrow> b = Some True"

definition addPart :: "jsstring list \<Rightarrow> int \<Rightarrow> jsstring \<Rightarrow> jsstring list" where
  "addPart parts n label = (if n > 0 then parts @ [plural n label] else parts)"

definition includeStaged :: "StatusSummary \<Rightarrow> MessageOptions \<Rightarrow> bool" where
  "includeStaged summary opts \<longleftrightarrow>
     truthy (stagedOnly opts)
     \<or> Staged.added (staged summary) + Staged.modified (staged summary)
         + Staged.deleted (staged summary) + Staged.renamed (staged summary)
         + Staged.copied (staged summary) > 0"

text \<open>The array \<open>parts\<close> after the two blocks of \<open>addPart\<close> calls.\<close>

definition titleParts :: "StatusSummary \<Rightarrow> MessageOptions \<Rightarrow> jsstring list" where
  "titleParts summary opts =
     (let parts = [];
          parts = (if includeStaged summary opts then
                     addPart (addPart (addPart (addPart parts
                       (Staged.added (staged summary)) (lit ''added''))
                       (Staged.modified (staged summary)) (lit ''modified''))
                       (Staged.deleted (staged summary)) (lit ''deleted''))
                       (Staged.renamed (staged summary) + Staged.copied (staged summary)) (lit ''renamed'')
                   else parts);
          parts = (if \<not> truthy (stagedOnly opts) then
                     addPart (addPart (addPart (addPart parts
                       (Unstaged.modified (unstaged summary)) (lit ''modified (unstaged)''))
                       (Unstaged.deleted (unstaged summary)) (lit ''deleted (unstaged)''))
                       (untracked summary) (lit ''untracked''))
                       (conflicts summary) (lit ''conflict'')
                   else parts)
      in parts)"

definition titleCore :: "StatusSummary \<Rightarrow> MessageOptions \<Rightarrow> jsstring" where
  "titleCore summary opts =
     (let parts = titleParts summary opts
      in if parts \<noteq> [] then join (lit '', '') parts else lit ''no changes'')"

text \<open>\<open>scope\<close>: a branch that is \<open>null\<close> or the empty string is falsy.\<close>

definition scope :: "StatusSummary \<Rightarrow> jsstring" where
  "scope summary =
     (case branch summary of
        None \<Rightarrow> []
      | Some b \<Rightarrow> if b = [] then [] else lit ''on '' @ b)"

definition title :: "StatusSummary \<Rightarrow> MessageOptions \<Rightarrow> jsstring" where
  "title summary opts =
     (let ab = (if ahead summary \<noteq> 0 \<or> behind summary \<noteq> 0
                then lit '', ahead '' @ showInt (ahead summary)
                       @ lit '', behind '' @ showInt (behind summary)
                else [])
      in titleCore summary opts
           @ (if scope summary \<noteq> [] then [0x20, 0x2014, 0x20] @ scope summary else [])
           @ ab)"

definition limitList :: "jsstring list \<Rightarrow> jsstring list \<times> int" where
  "limitList list =
     (if length list > MAX_FILE_SAMPLES
      then (take MAX_FILE_SAMPLES list, int (length list) - int MAX_FILE_SAMPLES)
      else (list, 0))"

text \<open>One body line: \<open>`label: ${l.list.join(', ')}${l.more ? ` (+${l.more} more)` : ''}`\<close>.\<close>

definition bodyLine :: "jsstring \<Rightarrow> jsstring list \<times> int \<Rightarrow> jsstring" where
  "bodyLine label l =
     label @ lit '': '' @ join (lit '', '') (fst l)
       @ (if snd l \<noteq> 0 then lit '' (+'' @ showInt (snd l) @ lit '' more)'' else [])"

definition bodyParts :: "StatusSummary \<Rightarrow> MessageOptions \<Rightarrow> jsstring list" where
  "bodyParts summary opts =
     (let addedL = limitList (Samples.added (samples summary));
          modL = limitList (Samples.modified (samples summary));
          delL = limitList (Samples.deleted (samples summary));
          renL = limitList (Samples.renamed (samples summary));
          untrackedL = limitList (Samples.untracked (samples summary))
      in (if fst addedL \<noteq> [] then [bodyLine (lit ''added'') addedL] else [])
         @ (if fst modL \<noteq> [] then [bodyLine (lit ''modified'') modL] else [])
         @ (if fst delL \<noteq> [] then [bodyLine (lit ''deleted'') delL] else [])
         @ (if fst renL \<noteq> [] then [bodyLine (lit ''renamed'') renL] else [])
         @ (if \<not> truthy (stagedOnly opts) \<and> fst untrackedL \<noteq> []
            then [bodyLine (lit ''untracked'') untrackedL] else []))"

definition buildSimpleMessage :: "StatusSummary \<Rightarrow> MessageOptions \<Rightarrow> jsstring" where
  "buildSimpleMessage summary opts =
     (if bodyParts summary opts \<noteq> []
      then title summary opts @ [0x0A, 0x0A] @ join [0x0A] (bodyParts summary opts)
      else title summary opts)"

section \<open>Invariants of the parser\<close>

text \<open>Every sample list respects the cap.\<close>

definition capped :: "StatusSummary \<Rightarrow> bool" where
  "capped s \<longleftrightarrow>
     length (Samples.added (samples s)) \<le> MAX_FILE_SAMPLES
   \<and> length (Samples.modified (samples s)) \<le> MAX_FILE_SAMPLES
   \<and> length (Samples.deleted (samples s)) \<le> MAX_FILE_SAMPLES
   \<and> length (Samples.renamed (samples s)) \<le> MAX_FILE_SAMPLES
   \<and> length (Samples.untracked (samples s)) \<le> MAX_FILE_SAMPLES"



section \<open>The upstream header, as the specification words it\<close>

text \<open>
  The pattern \<open>+<int> -<int>\<close> as a set of strings: \<open>digits\<close> is a non-empty run of decimal
  digits, \<open>signedNumber\<close> such a run with an optional minus sign, and \<open>containsAb r\<close> says that
  somewhere in \<open>r\<close> a plus sign, a number, white space, a minus sign and a number follow
  one another.
\<close>

definition digits :: "jsstring \<Rightarrow> bool" where
  "digits ds \<longleftrightarrow> ds \<noteq> [] \<and> list_all isDigit ds"

definition signedNumber :: "jsstring \<Rightarrow> bool" where
  "signedNumber m \<longleftrightarrow> digits m \<or> (m \<noteq> [] \<and> hd m = cu CHR ''-'' \<and> digits (tl m))"

definition containsAb :: "jsstring \<Rightarrow> bool" where
  "containsAb r \<longleftrightarrow>
     (\<exists>pre m1 ws m2 post.
        r = pre @ lit ''+'' @ m1 @ ws @ lit ''-'' @ m2 @ post
        \<and> signedNumber m1 \<and> ws \<noteq> [] \<and> list_all isSpace ws \<and> signedNumber m2)"

text \<open>
  The integer a signed number denotes, and the integers a JavaScript number holds exactly:
  within this range \<open>parseInt\<close> returns the denoted integer itself.
\<close>

definition intValue :: "jsstring \<Rightarrow> int" where
  "intValue m = (if m \<noteq> [] \<and> hd m = cu CHR ''-'' then - digitsValue (tl m) else digitsValue m)"

definition safeInteger :: "int \<Rightarrow> bool" where
  "safeInteger n \<longleftrightarrow> \<bar>n\<bar> \<le> 2 ^ 53"

section \<open>The title, as the specification words it\<close>

text \<open>
  The parts of the title in the words of the specification: the staged counters in the order
  added, modified, deleted, renamed plus copied when staged changes are included, then, unless
  only staged changes are wanted, unstaged-modified, unstaged-deleted, untracked and conflicts;
  of these the ones with a positive count, each written as the count, a space, the label and
  an \<open>s\<close> unless the count is 1.
\<close>

definition specParts :: "StatusSummary \<Rightarrow> MessageOptions \<Rightarrow> jsstring list" where
  "specParts summary opts =
     map (\<lambda>(n, label). showInt n @ lit '' '' @ label @ (if n = 1 then [] else lit ''s''))
       (filter (\<lambda>(n, label). n > 0)
         ((if stagedOnly opts = Some True
              \<or> Staged.added (staged summary) + Staged.modified (staged summary)
                  + Staged.deleted (staged summary) + Staged.renamed (staged summary)
                  + Staged.copied (staged summary) > 0
           then [(Staged.added (staged summary), lit ''added''),
                 (Staged.modified (staged summary), lit ''modified''),
                 (Staged.deleted (staged summary), lit ''deleted''),
                 (Staged.renamed (staged summary) + Staged.copied (staged summary), lit ''renamed'')]
           else [])
          @ (if stagedOnly opts = Some True then []
             else [(Unstaged.modified (unstaged summary), lit ''modified (unstaged)''),
                   (Unstaged.deleted (unstaged summary), lit ''deleted (unstaged)''),
                   (untracked summary, lit ''untracked''),
                   (conflicts summary, lit ''conflict'')])))"

section \<open>Changed files, as sets\<close>

text \<open>
  A path without white space, as \<open>split(/\s+/)\<close> yields it; two summaries whose sample lists
  hold the same entries in any order; and the paths one entry of \<open>samples.renamed\<close>
  contributes to the result.
\<close>

definition noSpace :: "jsstring \<Rightarrow> bool" where
  "noSpace p \<longleftrightarrow> list_all (\<lambda>c. \<not> isSpace c) p"

definition sameSamples :: "StatusSummary \<Rightarrow> StatusSummary \<Rightarrow> bool" where
  "sameSamples s s' \<longleftrightarrow>
     set (Samples.added (samples s)) = set (Samples.added (samples s'))
   \<and> set (Samples.modified (samples s)) = set (Samples.modified (samples s'))
   \<and> set (Samples.deleted (samples s)) = set (Samples.deleted (samples s'))
   \<and> set (Samples.renamed (samples s)) = set (Samples.renamed (samples s'))
   \<and> set (Samples.untracked (samples s)) = set (Samples.untracked (samples s'))"

definition pathsOf :: "jsstring \<Rightarrow> jsstring set" where
  "pathsOf f = (case renameMatch f of Some (m1, m2) \<Rightarrow> {m1, m2} | None \<Rightarrow> {f})"

section \<open>Evaluation rules\<close>

lemmas char_defs = lit_def cu_def

lemmas message_defs =
  buildSimpleMessage_def title_def titleCore_def titleParts_def includeStaged_def scope_def
  bodyParts_def limitList_def bodyLine_def addPart_def plural_def MAX_FILE_SAMPLES_def

section \<open>A status text with the branch header alone\<close>

text \<open>
  C2 (as stated): parsing \<open>"# branch.head main\n"\<close> and applying \<open>buildSimpleMessage\<close> to the
  summary yields exactly \<open>"no changes"\<close>. The code appends the branch suffix to the title
  core, so the message is longer than that.
\<close>

theorem C2_exactly_no_changes_counterexample:
  "buildSimpleMessage (projr (parseStatus (lit ''# branch.head main\<newline>'')))
     \<lparr> stagedOnly = None, commit = None, simple = None, verbose = None, template = None \<rparr>
   \<noteq> lit ''no changes''"
  by code_simp

text \<open>
  C2 (amended): parsing \<open>"# branch.head main\n"\<close> yields a summary with branch \<open>"main"\<close>,
  every counter equal to 0 and no samples, and \<open>buildSimpleMessage\<close> applied to that summary
  yields, for every choice of options, the title core \<open>"no changes"\<close> followed by the branch
  suffix: the string \<open>"no changes \<emdash> on main"\<close> (with the em dash U+2014).
\<close>

theorem C2_branch_head_main:
  "parseStatus (lit ''# branch.head main\<newline>'') =
     Inr \<lparr> branch = Some (lit ''main''), ahead = 0, behind = 0,
           staged = \<lparr> Staged.added = 0, Staged.modified = 0, Staged.deleted = 0,
                      Staged.renamed = 0, Staged.copied = 0 \<rparr>,
           unstaged = \<lparr> Unstaged.modified = 0, Unstaged.deleted = 0 \<rparr>,
           untracked = 0, conflicts = 0,
           samples = \<lparr> Samples.added = [], Samples.modified = [], Samples.deleted = [],
                       Samples.renamed = [], Samples.untracked = [] \<rparr> \<rparr>
   \<and> buildSimpleMessage
         \<lparr> branch = Some (lit ''main''), ahead = 0, behind = 0,
           staged = \<lparr> Staged.added = 0, Staged.modified = 0, Staged.deleted = 0,
                      Staged.renamed = 0, Staged.copied = 0 \<rparr>,
           unstaged = \<lparr> Unstaged.modified = 0, Unstaged.deleted = 0 \<rparr>,
           untracked = 0, conflicts = 0,
           samples = \<lparr> Samples.added = [], Samples.modified = [], Samples.deleted = [],
                       Samples.renamed = [], Samples.untracked = [] \<rparr> \<rparr> opts
       = lit ''no changes'' @ [0x20, 0x2014, 0x20] @ lit ''on main''"
proof
  show "parseStatus (lit ''# branch.head main\<newline>'') =
     Inr \<lparr> branch = Some (lit ''main''), ahead = 0, behind = 0,
           staged = \<lparr> Staged.added = 0, Staged.modified = 0, Staged.deleted = 0,
                      Staged.renamed = 0, Staged.copied = 0 \<rparr>,
           unstaged = \<lparr> Unstaged.modified = 0, Unstaged.deleted = 0 \<rparr>,
           untracked = 0, conflicts = 0,
           samples = \<lparr> Samples.added = [], Samples.modified = [], Samples.deleted = [],
                       Samples.renamed = [], Samples.untracked = [] \<rparr> \<rparr>"
    by code_simp
next
  show "buildSimpleMessage
         \<lparr> branch = Some (lit ''main''), ahead = 0, behind = 0,
           staged = \<lparr> Staged.added = 0, Staged.modified = 0, Staged.deleted = 0,
                      Staged.renamed = 0, Staged.copied = 0 \<rparr>,
           unstaged = \<lparr> Unstaged.modified = 0, Unstaged.deleted = 0 \<rparr>,
           untracked = 0, conflicts = 0,
           samples = \<lparr> Samples.added = [], Samples.modified = [], Samples.deleted = [],
                       Samples.renamed = [], Samples.untracked = [] \<rparr> \<rparr> opts
       = lit ''no changes'' @ [0x20, 0x2014, 0x20] @ lit ''on main''"
    by (simp add: message_defs char_defs)
qed

theorem C2_branch_head_main_witness:
  "buildSimpleMessage (projr (parseStatus (lit ''# branch.head main\<newline>'')))
     \<lparr> stagedOnly = Some True, commit = None, simple = None, verbose = None, template = None \<rparr>
   = lit ''no changes'' @ [0x20, 0x2014, 0x20] @ lit ''on main''"
  using C2_branch_head_main
    [of "\<lparr> stagedOnly = Some True, commit = None, simple = None, verbose = None, template = None \<rparr>"]
  by simp

section \<open>The loop of parseStatus\<close>

lemma consHead_nonempty: "consHead c ls \<noteq> []"
  by (cases ls) simp_all

lemma splitWs_nonempty: "splitWs l \<noteq> []"
  by (cases l) (simp_all add: consHead_nonempty)

lemma at_last: "xs \<noteq> [] \<Longrightarrow> at xs (int (length xs) - 1) = Some (last xs)"
  by (cases xs rule: rev_cases) (simp_all add: at_def nth_append)

lemma changedEntry_total:
  assumes "parts \<noteq> []"
  shows "\<exists>s'. changedEntry s t parts = Inr s'"
  using at_last [OF assms]
  by (simp add: changedEntry_def Let_def split: option.split)

lemma processLine_total: "\<exists>s'. processLine s l = Inr s'"
  using changedEntry_total [OF splitWs_nonempty]
  by (simp add: processLine_def split: option.split prod.split)

lemma forLines_total: "\<exists>s'. forLines s ls = Inr s'"
proof (induction ls arbitrary: s)
  case Nil
  show ?case by simp
next
  case (Cons l ls)
  obtain s1 where "processLine s l = Inr s1"
    using processLine_total by blast
  with Cons.IH [of s1] show ?case by simp
qed

lemma changedEntry_shapes:
  assumes "changedEntry s t parts = Inr s'"
  shows "s' = s \<or> (\<exists>i w p f. s' = unstagedChange w f (stagedChange i p f s))"
  using assms
  by (auto simp: changedEntry_def Let_def split: if_splits option.splits)

lemma processLine_shapes:
  assumes "processLine s l = Inr s'"
  shows "s' = s
    \<or> (\<exists>b. s' = s\<lparr> branch := Some b \<rparr>)
    \<or> (\<exists>a b. s' = s\<lparr> ahead := a, behind := b \<rparr>)
    \<or> s' = s\<lparr> untracked := untracked s + 1,
                samples := (samples s)\<lparr> Samples.untracked :=
                   pushSample (Samples.untracked (samples s)) (drop 2 l) \<rparr> \<rparr>
    \<or> s' = s\<lparr> conflicts := conflicts s + 1 \<rparr>
    \<or> (\<exists>i w p f. s' = unstagedChange w f (stagedChange i p f s))"
proof (cases "startsWith l (lit ''# '')")
  case True
  with assms show ?thesis
    by (auto simp: processLine_def split: if_splits option.splits prod.splits)
next
  case False
  show ?thesis
  proof (cases "at l 0")
    case None
    with False assms show ?thesis by (simp add: processLine_def)
  next
    case (Some t)
    consider "t = cu CHR ''?''" | "t = cu CHR ''!''" | "t = cu CHR ''u''"
      | "t \<noteq> cu CHR ''?''" "t \<noteq> cu CHR ''!''" "t \<noteq> cu CHR ''u''" "t = cu CHR ''1'' \<or> t = cu CHR ''2''"
      | "t \<noteq> cu CHR ''?''" "t \<noteq> cu CHR ''!''" "t \<noteq> cu CHR ''u''" "\<not> (t = cu CHR ''1'' \<or> t = cu CHR ''2'')"
      by blast
    then show ?thesis
    proof cases
      case 1
      with False Some assms show ?thesis by (simp add: processLine_def)
    next
      case 2
      with False Some assms show ?thesis by (simp add: processLine_def cu_def)
    next
      case 3
      with False Some assms show ?thesis by (simp add: processLine_def cu_def)
    next
      case 4
      with False Some assms have "changedEntry s t (splitWs l) = Inr s'"
        by (simp add: processLine_def)
      from changedEntry_shapes [OF this] show ?thesis by blast
    next
      case 5
      with False Some assms show ?thesis by (simp add: processLine_def)
    qed
  qed
qed

lemma forLines_invariant:
  assumes "forLines s ls = Inr s'" and "P s"
    and step: "\<And>s l s'. P s \<Longrightarrow> l \<in> set ls \<Longrightarrow> processLine s l = Inr s' \<Longrightarrow> P s'"
  shows "P s'"
  using assms
proof (induction ls arbitrary: s)
  case Nil
  then show ?case by simp
next
  case (Cons l ls)
  obtain s1 where s1: "processLine s l = Inr s1"
    using processLine_total by blast
  with Cons.prems(1) have rest: "forLines s1 ls = Inr s'" by simp
  have "P s1" using Cons.prems(3) [OF Cons.prems(2) _ s1] by simp
  then show ?case
  proof (rule Cons.IH [OF rest])
    fix t la t'
    assume "P t" "la \<in> set ls" "processLine t la = Inr t'"
    then show "P t'" using Cons.prems(3) [of t la t'] by simp
  qed
qed

lemma forLines_append:
  "forLines s (xs @ ys) = (case forLines s xs of Inl e \<Rightarrow> Inl e | Inr s1 \<Rightarrow> forLines s1 ys)"
  by (induction xs arbitrary: s) (simp_all split: sum.split)

lemma processLine_unrecognized:
  assumes "\<not> startsWith line (lit ''# '')"
    and "at line 0 \<notin> {Some (cu CHR ''?''), Some (cu CHR ''u''), Some (cu CHR ''1''), Some (cu CHR ''2'')}"
  shows "processLine s line = Inr s"
  using assms by (simp add: processLine_def split: option.split)

section \<open>Totality of the parser\<close>

text \<open>
  C7: \<open>parseStatus\<close> is total: for every input string it returns a fully populated summary
  and never an error; a line that is not a header (\<open>"# "\<close>) and whose first code unit is
  none of \<open>?\<close>, \<open>u\<close>, \<open>1\<close>, \<open>2\<close> (the ignored-file marker \<open>!\<close> included) is skipped: the loop
  body returns the summary unchanged, and the loop gives the same result with and without
  that line.
\<close>

theorem C7_parseStatus_total:
  "(\<exists>summary. parseStatus output = Inr summary)
   \<and> (\<not> startsWith line (lit ''# '')
        \<and> at line 0 \<notin> {Some (cu CHR ''?''), Some (cu CHR ''u''), Some (cu CHR ''1''), Some (cu CHR ''2'')}
      \<longrightarrow> processLine s line = Inr s
          \<and> forLines s (before @ line # after) = forLines s (before @ after))"
proof (intro conjI impI)
  show "\<exists>summary. parseStatus output = Inr summary"
    unfolding parseStatus_def by (rule forLines_total)
next
  assume "\<not> startsWith line (lit ''# '')
        \<and> at line 0 \<notin> {Some (cu CHR ''?''), Some (cu CHR ''u''), Some (cu CHR ''1''), Some (cu CHR ''2'')}"
  then show skip: "processLine s line = Inr s" for s
    using processLine_unrecognized by blast
  show "forLines s (before @ line # after) = forLines s (before @ after)"
    by (simp add: forLines_append skip split: sum.split)
qed

theorem C7_parseStatus_total_witness:
  "(\<exists>summary. parseStatus (lit ''x garbage\<newline>1\<newline>2 R'') = Inr summary)
   \<and> processLine initialSummary (lit ''x garbage'') = Inr initialSummary
   \<and> forLines initialSummary ([lit ''? a''] @ lit ''x garbage'' # [lit ''u b''])
       = forLines initialSummary ([lit ''? a''] @ [lit ''u b''])"
  using C7_parseStatus_total [of "lit ''x garbage\<newline>1\<newline>2 R''" "lit ''x garbage''" initialSummary "[lit ''? a'']" "[lit ''u b'']"]
  by (simp add: startsWith_def at_def char_defs)

lemmas parse_defs =
  parseStatus_def processLine_def changedEntry_def stagedChange_def unstagedChange_def
  pushSample_def renameSample_def startsWith_def trim_def at_def abMatchAt_def signedDigits_def
  parseInt_def orZero_def digitsValue_def initialSummary_def MAX_FILE_SAMPLES_def
  isSpace_def isDigit_def lit_def cu_def

section \<open>The sample cap\<close>

lemma length_pushSample: "length xs \<le> MAX_FILE_SAMPLES \<Longrightarrow> length (pushSample xs f) \<le> MAX_FILE_SAMPLES"
  by (simp add: pushSample_def)

lemma capped_stagedChange: "capped s \<Longrightarrow> capped (stagedChange i p f s)"
  by (simp add: capped_def stagedChange_def length_pushSample)

lemma capped_unstagedChange: "capped s \<Longrightarrow> capped (unstagedChange w f s)"
  by (simp add: capped_def unstagedChange_def length_pushSample)

lemma capped_processLine:
  assumes "capped s" and "processLine s l = Inr s'"
  shows "capped s'"
  using processLine_shapes [OF assms(2)] assms(1)
  by (auto simp: capped_stagedChange capped_unstagedChange)
     (simp_all add: capped_def length_pushSample)

lemma capped_parseStatus:
  assumes "parseStatus output = Inr s"
  shows "capped s"
proof (rule forLines_invariant [where P = capped])
  show "forLines initialSummary (filter (\<lambda>line. line \<noteq> []) (splitLines output)) = Inr s"
    using assms by (simp add: parseStatus_def)
  show "capped initialSummary"
    by (simp add: capped_def initialSummary_def)
  show "capped t'" if "capped t" "processLine t l = Inr t'" for t l t'
    using that by (rule capped_processLine)
qed

lemma limitList_capped: "length xs \<le> MAX_FILE_SAMPLES \<Longrightarrow> limitList xs = (xs, 0)"
  by (simp add: limitList_def)

text \<open>
  C10: in every summary produced by \<open>parseStatus\<close> each of the five sample lists has at most
  10 entries (\<open>MAX_FILE_SAMPLES\<close>); hence \<open>limitList\<close> reports an overflow of 0 for each and
  every body line of \<open>buildSimpleMessage\<close> is the category label, a colon and the joined
  samples, with no \<open>" (+n more)"\<close> appended.
\<close>

theorem C10_no_overflow_after_parse:
  assumes "parseStatus output = Inr summary"
  shows "length (Samples.added (samples summary)) \<le> 10
       \<and> length (Samples.modified (samples summary)) \<le> 10
       \<and> length (Samples.deleted (samples summary)) \<le> 10
       \<and> length (Samples.renamed (samples summary)) \<le> 10
       \<and> length (Samples.untracked (samples summary)) \<le> 10
       \<and> snd (limitList (Samples.added (samples summary))) = 0
       \<and> snd (limitList (Samples.modified (samples summary))) = 0
       \<and> snd (limitList (Samples.deleted (samples summary))) = 0
       \<and> snd (limitList (Samples.renamed (samples summary))) = 0
       \<and> snd (limitList (Samples.untracked (samples summary))) = 0
       \<and> bodyParts summary opts =
           (if Samples.added (samples summary) \<noteq> []
            then [lit ''added: '' @ join (lit '', '') (Samples.added (samples summary))] else [])
         @ (if Samples.modified (samples summary) \<noteq> []
            then [lit ''modified: '' @ join (lit '', '') (Samples.modified (samples summary))] else [])
         @ (if Samples.deleted (samples summary) \<noteq> []
            then [lit ''deleted: '' @ join (lit '', '') (Samples.deleted (samples summary))] else [])
         @ (if Samples.renamed (samples summary) \<noteq> []
            then [lit ''renamed: '' @ join (lit '', '') (Samples.renamed (samples summary))] else [])
         @ (if \<not> truthy (stagedOnly opts) \<and> Samples.untracked (samples summary) \<noteq> []
            then [lit ''untracked: '' @ join (lit '', '') (Samples.untracked (samples summary))] else [])"
proof -
  have c: "capped summary" using assms by (rule capped_parseStatus)
  then have lens: "length (Samples.added (samples summary)) \<le> 10"
      "length (Samples.modified (samples summary)) \<le> 10"
      "length (Samples.deleted (samples summary)) \<le> 10"
      "length (Samples.renamed (samples summary)) \<le> 10"
      "length (Samples.untracked (samples summary)) \<le> 10"
    by (simp_all add: capped_def MAX_FILE_SAMPLES_def)
  from c have lims: "limitList (Samples.added (samples summary)) = (Samples.added (samples summary), 0)"
      "limitList (Samples.modified (samples summary)) = (Samples.modified (samples summary), 0)"
      "limitList (Samples.deleted (samples summary)) = (Samples.deleted (samples summary), 0)"
      "limitList (Samples.renamed (samples summary)) = (Samples.renamed (samples summary), 0)"
      "limitList (Samples.untracked (samples summary)) = (Samples.untracked (samples summary), 0)"
    by (simp_all add: capped_def limitList_capped)
  have body: "bodyParts summary opts =
           (if Samples.added (samples summary) \<noteq> []
            then [lit ''added: '' @ join (lit '', '') (Samples.added (samples summary))] else [])
         @ (if Samples.modified (samples summary) \<noteq> []
            then [lit ''modified: '' @ join (lit '', '') (Samples.modified (samples summary))] else [])
         @ (if Samples.deleted (samples summary) \<noteq> []
            then [lit ''deleted: '' @ join (lit '', '') (Samples.deleted (samples summary))] else [])
         @ (if Samples.renamed (samples summary) \<noteq> []
            then [lit ''renamed: '' @ join (lit '', '') (Samples.renamed (samples summary))] else [])
         @ (if \<not> truthy (stagedOnly opts) \<and> Samples.untracked (samples summary) \<noteq> []
            then [lit ''untracked: '' @ join (lit '', '') (Samples.untracked (samples summary))] else [])"
    unfolding bodyParts_def Let_def lims by (simp add: bodyLine_def lit_def)
  show ?thesis
    using lens body by (simp add: lims)
qed

lemma eleven_untracked:
  "parseStatus (lit ''? a\<newline>? a\<newline>? a\<newline>? a\<newline>? a\<newline>? a\<newline>? a\<newline>? a\<newline>? a\<newline>? a\<newline>? a\<newline>'') =
     Inr \<lparr> branch = None, ahead = 0, behind = 0,
           staged = \<lparr> Staged.added = 0, Staged.modified = 0, Staged.deleted = 0,
                      Staged.renamed = 0, Staged.copied = 0 \<rparr>,
           unstaged = \<lparr> Unstaged.modified = 0, Unstaged.deleted = 0 \<rparr>,
           untracked = 11, conflicts = 0,
           samples = \<lparr> Samples.added = [], Samples.modified = [], Samples.deleted = [],
                       Samples.renamed = [],
                       Samples.untracked = [lit ''a'', lit ''a'', lit ''a'', lit ''a'', lit ''a'',
                                            lit ''a'', lit ''a'', lit ''a'', lit ''a'', lit ''a''] \<rparr> \<rparr>"
  by (simp add: parse_defs)

theorem C10_no_overflow_after_parse_witness:
  "untracked (projr (parseStatus (lit ''? a\<newline>? a\<newline>? a\<newline>? a\<newline>? a\<newline>? a\<newline>? a\<newline>? a\<newline>? a\<newline>? a\<newline>? a\<newline>''))) = 11
   \<and> length (Samples.untracked (samples (projr (parseStatus (lit ''? a\<newline>? a\<newline>? a\<newline>? a\<newline>? a\<newline>? a\<newline>? a\<newline>? a\<newline>? a\<newline>? a\<newline>? a\<newline>''))))) \<le> 10
   \<and> snd (limitList (Samples.untracked (samples (projr (parseStatus (lit ''? a\<newline>? a\<newline>? a\<newline>? a\<newline>? a\<newline>? a\<newline>? a\<newline>? a\<newline>? a\<newline>? a\<newline>? a\<newline>'')))))) = 0"
  using C10_no_overflow_after_parse [OF eleven_untracked,
      of "\<lparr> stagedOnly = None, commit = None, simple = None, verbose = None, template = None \<rparr>"]
  by (simp add: eleven_untracked)

section \<open>Counters and sample buckets\<close>













lemma isDigit_not_special: "isDigit c \<Longrightarrow> c \<noteq> cu CHR ''-'' \<and> c \<noteq> cu CHR ''+'' \<and> \<not> isSpace c"
  by (auto simp: isDigit_def isSpace_def cu_def word_le_def)



lemma parseInt_digits:
  assumes "ds \<noteq> []" and "\<forall>c \<in> set ds. isDigit c"
  shows "parseInt ds = Some (digitsValue ds)"
proof -
  obtain d ds' where ds: "ds = d # ds'" using assms(1) by (cases ds) simp_all
  with assms(2) have d: "isDigit d" by simp
  have tw: "takeWhile isDigit ds = ds"
    using assms(2) by (simp add: takeWhile_eq_all_conv)
  have dw: "dropWhile isSpace ds = ds"
    using ds d isDigit_not_special [OF d] by simp
  show ?thesis
    using isDigit_not_special [OF d] assms(1) tw
    by (simp add: parseInt_def dw Let_def ds)
qed




lemma abSearch_suffix: "abSearch s = Some m \<Longrightarrow> \<exists>t. suffix t s \<and> abMatchAt t = Some m"
proof (induction s)
  case Nil
  then show ?case by simp
next
  case (Cons c cs)
  show ?case
  proof (cases "abMatchAt (c # cs)")
    case None
    with Cons.prems have "abSearch cs = Some m" by simp
    from Cons.IH [OF this] obtain t where "suffix t cs" "abMatchAt t = Some m" by blast
    then show ?thesis by (blast intro: suffix_ConsI)
  next
    case (Some a)
    with Cons.prems have "abMatchAt (c # cs) = Some m" by simp
    then show ?thesis by blast
  qed
qed


lemma stagedChange_ab [simp]:
  "ahead (stagedChange i p f s) = ahead s" "behind (stagedChange i p f s) = behind s"
  by (simp_all add: stagedChange_def)

lemma unstagedChange_ab [simp]:
  "ahead (unstagedChange w f s) = ahead s" "behind (unstagedChange w f s) = behind s"
  by (simp_all add: unstagedChange_def)








section \<open>The upstream header\<close>

lemma unat_digit: "n < 10 \<Longrightarrow> unat (of_nat (48 + n) :: 16 word) = 48 + n"
  by (simp only: unat_of_nat) simp

lemma uint_digit: "n < 10 \<Longrightarrow> uint (of_nat (48 + n) :: 16 word) = 48 + int n"
  by (simp only: uint_nat unat_digit)

lemma isDigit_of_nat: "n < 10 \<Longrightarrow> isDigit (of_nat (48 + n))"
  using uint_digit [of n] unfolding isDigit_def word_le_def by simp

lemma digitsValue_snoc: "digitsValue (xs @ [c]) = 10 * digitsValue xs + (uint c - 48)"
  by (simp add: digitsValue_def)

lemma showNat_digits: "digits (showNat n)"
proof (induction n rule: showNat.induct)
  case (1 n)
  show ?case
  proof (cases "n < 10")
    case True
    then show ?thesis
      using isDigit_of_nat [of n] by (subst showNat.simps) (simp add: digits_def del: of_nat_add)
  next
    case False
    with 1 have "digits (showNat (n div 10))" by simp
    moreover have "isDigit (of_nat (48 + n mod 10))"
      by (rule isDigit_of_nat) simp
    ultimately show ?thesis
      using False by (subst showNat.simps) (simp add: digits_def del: of_nat_add)
  qed
qed

lemma digitsValue_showNat: "digitsValue (showNat n) = int n"
proof (induction n rule: showNat.induct)
  case (1 n)
  show ?case
  proof (cases "n < 10")
    case True
    then show ?thesis
      using uint_digit [of n] by (subst showNat.simps) (simp add: digitsValue_def del: of_nat_add)
  next
    case False
    with 1 have ih: "digitsValue (showNat (n div 10)) = int (n div 10)" by simp
    have "uint (of_nat (48 + n mod 10) :: 16 word) = 48 + int (n mod 10)"
      by (rule uint_digit) simp
    with ih False show ?thesis
      by (subst showNat.simps) (simp add: digitsValue_snoc zdiv_int zmod_int del: of_nat_add)
  qed
qed


lemma isSpace_not_digit: "isSpace c \<Longrightarrow> \<not> isDigit c"
  using isDigit_not_special by blast

lemma minus_not_space: "\<not> isSpace (cu CHR ''-'')" and plus_not_space: "\<not> isSpace (cu CHR ''+'')"
  by (simp_all add: isSpace_def cu_def)

lemma digits_hd: "digits ds \<Longrightarrow> ds \<noteq> [] \<and> isDigit (hd ds) \<and> isDigit (last ds)"
  by (cases ds) (auto simp: digits_def list_all_iff)

lemma takeWhile_stop: "rest = [] \<or> \<not> P (hd rest) \<Longrightarrow> takeWhile P rest = [] \<and> dropWhile P rest = rest"
  by (cases rest) auto

lemma span_run:
  assumes "list_all P xs" and "rest = [] \<or> \<not> P (hd rest)"
  shows "takeWhile P (xs @ rest) = xs" and "dropWhile P (xs @ rest) = rest"
  using assms takeWhile_stop [of rest P]
  by (simp_all add: list_all_iff takeWhile_append2 dropWhile_append2)

lemma signedDigits_digits:
  assumes "digits ds" and "rest = [] \<or> \<not> isDigit (hd rest)"
  shows "signedDigits (ds @ rest) = Some (ds, rest)"
proof -
  from digits_hd [OF assms(1)] have ne: "ds \<noteq> []" and d: "isDigit (hd ds)" by simp_all
  from isDigit_not_special [OF d] ne have nm: "hd (ds @ rest) \<noteq> cu CHR ''-''"
    by simp
  have "list_all isDigit ds" using assms(1) by (simp add: digits_def)
  from span_run [OF this assms(2)] nm ne show ?thesis
    by (simp add: signedDigits_def Let_def)
qed

lemma signedDigits_signedNumber:
  assumes "signedNumber m" and "rest = [] \<or> \<not> isDigit (hd rest)"
  shows "signedDigits (m @ rest) = Some (m, rest)"
proof (cases "digits m")
  case True
  then show ?thesis using assms(2) by (rule signedDigits_digits)
next
  case False
  with assms(1) obtain ds where m: "m = cu CHR ''-'' # ds" and ds: "digits ds"
    by (cases m) (auto simp: signedNumber_def)
  have "list_all isDigit ds" "ds \<noteq> []" using ds by (simp_all add: digits_def)
  with span_run [OF this(1) assms(2)] show ?thesis
    by (simp add: signedDigits_def Let_def m)
qed

lemma signedDigits_some:
  assumes "signedNumber m"
  shows "signedDigits (m @ post) \<noteq> None"
proof -
  have run: "takeWhile isDigit (ds @ post) \<noteq> []" if "digits ds" for ds
    using digits_hd [OF that] by (cases ds) simp_all
  show ?thesis
  proof (cases "digits m")
    case True
    from digits_hd [OF True] have ne: "m \<noteq> []" and d: "isDigit (hd m)" by simp_all
    from isDigit_not_special [OF d] ne have "hd (m @ post) \<noteq> cu CHR ''-''"
      by simp
    with run [OF True] show ?thesis
      by (simp add: signedDigits_def Let_def)
  next
    case False
    with assms obtain ds where m: "m = cu CHR ''-'' # ds" and ds: "digits ds"
      by (cases m) (auto simp: signedNumber_def)
    with run [OF ds] show ?thesis
      by (simp add: signedDigits_def Let_def)
  qed
qed

lemma signedDigits_sound:
  assumes "signedDigits r = Some (m, r')"
  shows "r = m @ r' \<and> signedNumber m"
proof (cases "r \<noteq> [] \<and> hd r = cu CHR ''-''")
  case True
  then obtain t where r: "r = cu CHR ''-'' # t" by (cases r) auto
  with assms have m: "m = cu CHR ''-'' # takeWhile isDigit t" "r' = dropWhile isDigit t"
      "takeWhile isDigit t \<noteq> []"
    by (auto simp: signedDigits_def Let_def split: if_splits)
  have "digits (takeWhile isDigit t)"
    using m(3) by (auto simp: digits_def list_all_iff dest: set_takeWhileD)
  with m r show ?thesis by (simp add: signedNumber_def)
next
  case False
  with assms have m: "m = takeWhile isDigit r" "r' = dropWhile isDigit r" "takeWhile isDigit r \<noteq> []"
    by (auto simp: signedDigits_def Let_def split: if_splits)
  have "digits (takeWhile isDigit r)"
    using m(3) by (auto simp: digits_def list_all_iff dest: set_takeWhileD)
  with m show ?thesis by (simp add: signedNumber_def)
qed

lemma abMatchAt_wellformed:
  assumes "digits a" and "digits b" and "ws \<noteq> []" and "list_all isSpace ws"
    and "post = [] \<or> \<not> isDigit (hd post)"
  shows "abMatchAt (lit ''+'' @ a @ ws @ lit ''-'' @ b @ post) = Some (a, b)"
proof -
  from assms(3,4) have "isSpace (hd ws)" by (cases ws) simp_all
  then have stop1: "ws @ lit ''-'' @ b @ post = [] \<or> \<not> isDigit (hd (ws @ lit ''-'' @ b @ post))"
    using assms(3) by (simp add: isSpace_not_digit)
  have g1: "signedDigits (a @ ws @ lit ''-'' @ b @ post) = Some (a, ws @ lit ''-'' @ b @ post)"
    using assms(1) stop1 by (rule signedDigits_digits)
  have stop2: "lit ''-'' @ b @ post = [] \<or> \<not> isSpace (hd (lit ''-'' @ b @ post))"
    by (simp add: lit_def minus_not_space)
  have sp: "takeWhile isSpace (ws @ lit ''-'' @ b @ post) = ws"
    "dropWhile isSpace (ws @ lit ''-'' @ b @ post) = lit ''-'' @ b @ post"
    using span_run [OF assms(4) stop2] by simp_all
  have g2: "signedDigits (b @ post) = Some (b, post)"
    using assms(2,5) by (rule signedDigits_digits)
  show ?thesis
    using g1 sp g2 assms(3) by (simp add: abMatchAt_def lit_def)
qed

lemma abMatchAt_sound:
  assumes "abMatchAt t = Some (m1, m2)"
  shows "\<exists>ws post. t = lit ''+'' @ m1 @ ws @ lit ''-'' @ m2 @ post
           \<and> signedNumber m1 \<and> ws \<noteq> [] \<and> list_all isSpace ws \<and> signedNumber m2"
proof -
  from assms obtain r r1 r2 r3 where
    t: "t = cu CHR ''+'' # r" and
    g1: "signedDigits r = Some (m1, r1)" and
    ne: "takeWhile isSpace r1 \<noteq> []" and
    d: "dropWhile isSpace r1 = cu CHR ''-'' # r2" and
    g2: "signedDigits r2 = Some (m2, r3)"
    by (auto simp: abMatchAt_def split: list.splits if_splits option.splits)
  from signedDigits_sound [OF g1] have r: "r = m1 @ r1" and n1: "signedNumber m1" by simp_all
  from signedDigits_sound [OF g2] have r2: "r2 = m2 @ r3" and n2: "signedNumber m2" by simp_all
  have "r1 = takeWhile isSpace r1 @ dropWhile isSpace r1" by simp
  with d r2 have r1: "r1 = takeWhile isSpace r1 @ lit ''-'' @ m2 @ r3" by (simp add: lit_def)
  have "list_all isSpace (takeWhile isSpace r1)"
    by (auto simp: list_all_iff dest: set_takeWhileD)
  moreover have "t = lit ''+'' @ m1 @ takeWhile isSpace r1 @ lit ''-'' @ m2 @ r3"
    using t r r1 by (simp add: lit_def)
  ultimately show ?thesis using n1 n2 ne by blast
qed

lemma abMatchAt_complete:
  assumes "signedNumber m1" and "ws \<noteq> []" and "list_all isSpace ws" and "signedNumber m2"
  shows "abMatchAt (lit ''+'' @ m1 @ ws @ lit ''-'' @ m2 @ post) \<noteq> None"
proof -
  from assms(2,3) have "isSpace (hd ws)" by (cases ws) simp_all
  then have stop1: "ws @ lit ''-'' @ m2 @ post = [] \<or> \<not> isDigit (hd (ws @ lit ''-'' @ m2 @ post))"
    using assms(2) by (simp add: isSpace_not_digit)
  have g1: "signedDigits (m1 @ ws @ lit ''-'' @ m2 @ post) = Some (m1, ws @ lit ''-'' @ m2 @ post)"
    using assms(1) stop1 by (rule signedDigits_signedNumber)
  have stop2: "lit ''-'' @ m2 @ post = [] \<or> \<not> isSpace (hd (lit ''-'' @ m2 @ post))"
    by (simp add: lit_def minus_not_space)
  have sp: "takeWhile isSpace (ws @ lit ''-'' @ m2 @ post) = ws"
    "dropWhile isSpace (ws @ lit ''-'' @ m2 @ post) = lit ''-'' @ m2 @ post"
    using span_run [OF assms(3) stop2] by simp_all
  from signedDigits_some [OF assms(4), of post] obtain g where g2: "signedDigits (m2 @ post) = Some g"
    by blast
  show ?thesis
    using g1 sp g2 assms(2) by (simp add: abMatchAt_def lit_def split: prod.split)
qed

lemma abSearch_append:
  assumes "abMatchAt t \<noteq> None"
  shows "abSearch (pre @ t) \<noteq> None"
proof (induction pre)
  case Nil
  from assms obtain c cs where "t = c # cs" by (cases t) (simp_all add: abMatchAt_def)
  with assms show ?case by (auto split: option.split)
next
  case (Cons p pre)
  then show ?case by (auto split: option.split)
qed

lemma abSearch_None_iff: "abSearch r = None \<longleftrightarrow> \<not> containsAb r"
proof
  assume none: "abSearch r = None"
  show "\<not> containsAb r"
  proof
    assume "containsAb r"
    then obtain pre m1 ws m2 post where
      r: "r = pre @ lit ''+'' @ m1 @ ws @ lit ''-'' @ m2 @ post" and
      c: "signedNumber m1" "ws \<noteq> []" "list_all isSpace ws" "signedNumber m2"
      unfolding containsAb_def by blast
    from abSearch_append [OF abMatchAt_complete [OF c], of pre post] none r
    show False by simp
  qed
next
  assume nc: "\<not> containsAb r"
  show "abSearch r = None"
  proof (rule ccontr)
    assume "abSearch r \<noteq> None"
    then obtain m1 m2 where "abSearch r = Some (m1, m2)" by auto
    from abSearch_suffix [OF this] obtain t where t: "suffix t r" "abMatchAt t = Some (m1, m2)"
      by blast
    from t(1) obtain pre where "r = pre @ t" by (auto simp: suffix_def)
    with abMatchAt_sound [OF t(2)] have "containsAb r"
      unfolding containsAb_def by blast
    with nc show False by simp
  qed
qed

lemma trim_core:
  assumes "core \<noteq> []" and "\<not> isSpace (hd core)" and "\<not> isSpace (last core)"
    and "list_all isSpace wl" and "list_all isSpace wr"
  shows "trim (wl @ core @ wr) = core"
proof -
  have "core @ wr = [] \<or> \<not> isSpace (hd (core @ wr))" using assms(1,2) by simp
  from span_run(2) [OF assms(4) this] have 1: "dropWhile isSpace (wl @ core @ wr) = core @ wr" .
  have "rev core = [] \<or> \<not> isSpace (hd (rev core))"
    using assms(1,3) by (simp add: hd_rev)
  moreover have "list_all isSpace (rev wr)" using assms(5) by (simp add: list_all_iff)
  ultimately have 2: "dropWhile isSpace (rev wr @ rev core) = rev core"
    by (rule span_run(2) [rotated])
  show ?thesis by (simp add: trim_def 1 2)
qed

lemma processLine_branch_ab:
  "processLine s (lit ''# branch.ab '' @ rest) =
     Inr (case abSearch (trim rest) of
            None \<Rightarrow> s
          | Some (m1, m2) \<Rightarrow> s\<lparr> ahead := orZero (parseInt m1), behind := orZero (parseInt m2) \<rparr>)"
  by (simp add: processLine_def startsWith_def lit_def cu_def split: option.split)

lemma parseInt_signedNumber:
  assumes "signedNumber m"
  shows "parseInt m = Some (intValue m)"
proof (cases "digits m")
  case True
  from digits_hd [OF True] have ne: "m \<noteq> []" and d: "isDigit (hd m)" by simp_all
  from isDigit_not_special [OF d] have "hd m \<noteq> cu CHR ''-''" by simp
  then have "intValue m = digitsValue m" by (simp add: intValue_def)
  moreover have "parseInt m = Some (digitsValue m)"
    using True by (simp add: digits_def list_all_iff parseInt_digits)
  ultimately show ?thesis by simp
next
  case False
  with assms obtain ds where m: "m = cu CHR ''-'' # ds" and ds: "digits ds"
    by (cases m) (auto simp: signedNumber_def)
  have tw: "takeWhile isDigit ds = ds" "ds \<noteq> []"
    using ds by (simp_all add: digits_def list_all_iff takeWhile_eq_all_conv)
  show ?thesis
    by (simp add: parseInt_def Let_def m minus_not_space intValue_def tw)
qed

lemma abMatchAt_signed:
  assumes "signedNumber m1" and "signedNumber m2" and "ws \<noteq> []" and "list_all isSpace ws"
    and "post = [] \<or> \<not> isDigit (hd post)"
  shows "abMatchAt (lit ''+'' @ m1 @ ws @ lit ''-'' @ m2 @ post) = Some (m1, m2)"
proof -
  from assms(3,4) have "isSpace (hd ws)" by (cases ws) simp_all
  then have stop1: "ws @ lit ''-'' @ m2 @ post = [] \<or> \<not> isDigit (hd (ws @ lit ''-'' @ m2 @ post))"
    using assms(3) by (simp add: isSpace_not_digit)
  have g1: "signedDigits (m1 @ ws @ lit ''-'' @ m2 @ post) = Some (m1, ws @ lit ''-'' @ m2 @ post)"
    using assms(1) stop1 by (rule signedDigits_signedNumber)
  have stop2: "lit ''-'' @ m2 @ post = [] \<or> \<not> isSpace (hd (lit ''-'' @ m2 @ post))"
    by (simp add: lit_def minus_not_space)
  have sp: "takeWhile isSpace (ws @ lit ''-'' @ m2 @ post) = ws"
    "dropWhile isSpace (ws @ lit ''-'' @ m2 @ post) = lit ''-'' @ m2 @ post"
    using span_run [OF assms(4) stop2] by simp_all
  have g2: "signedDigits (m2 @ post) = Some (m2, post)"
    using assms(2,5) by (rule signedDigits_signedNumber)
  show ?thesis
    using g1 sp g2 assms(3) by (simp add: abMatchAt_def lit_def)
qed

lemma abSearch_skip: "cu CHR ''+'' \<notin> set pre \<Longrightarrow> abSearch (pre @ t) = abSearch t"
  by (induction pre) (auto simp: abMatchAt_def)

lemma abSearch_signed:
  assumes "cu CHR ''+'' \<notin> set pre" and "signedNumber m1" and "signedNumber m2"
    and "ws \<noteq> []" and "list_all isSpace ws" and "post = [] \<or> \<not> isDigit (hd post)"
  shows "abSearch (pre @ lit ''+'' @ m1 @ ws @ lit ''-'' @ m2 @ post) = Some (m1, m2)"
proof -
  have "abMatchAt (lit ''+'' @ m1 @ ws @ lit ''-'' @ m2 @ post) = Some (m1, m2)"
    using assms(2-6) by (rule abMatchAt_signed)
  then have "abSearch (lit ''+'' @ m1 @ ws @ lit ''-'' @ m2 @ post) = Some (m1, m2)"
    by (simp add: lit_def)
  with abSearch_skip [OF assms(1)] show ?thesis by simp
qed

lemma digits_signedNumber: "digits ds \<Longrightarrow> signedNumber ds"
  by (simp add: signedNumber_def)

lemma intValue_showNat: "intValue (showNat n) = int n"
proof -
  from digits_hd [OF showNat_digits [of n]] have "isDigit (hd (showNat n))" by simp
  from isDigit_not_special [OF this] show ?thesis
    by (simp add: intValue_def digitsValue_showNat)
qed

text \<open>
  C4 (as stated): a line \<open>"# branch.ab "\<close> whose remainder matches \<open>+<int> -<int>\<close> sets \<open>ahead\<close>
  to the first integer and \<open>behind\<close> to the absolute value of the second, and a non-matching
  line leaves both as they were. On \<open>"# branch.ab +1 --2"\<close> the code sets \<open>ahead\<close> to 1 and
  \<open>behind\<close> to -2: if the second integer may carry a sign, \<open>behind\<close> is not its absolute
  value, and if it may not, the line does not match and yet both fields are set.
\<close>

theorem C4_branch_ab_counterexample:
  "ahead (projr (parseStatus (lit ''# branch.ab +1 --2''))) = 1
   \<and> behind (projr (parseStatus (lit ''# branch.ab +1 --2''))) = - 2"
  by (simp add: parse_defs)

text \<open>
  C4 (amended): each integer of the pattern is an optional minus sign and decimal digits,
  as the regular expression captures it. When the trimmed remainder of a \<open>"# branch.ab "\<close>
  line has, after a prefix without \<open>+\<close>, a plus sign, an integer, white space, a minus sign
  and an integer not followed by a further digit, both integers of magnitude at most \<open>2^53\<close>,
  the line sets \<open>ahead\<close> to the first integer and \<open>behind\<close> to the second integer as written
  after the minus sign, with no absolute value taken. For natural numbers \<open>n\<close> and \<open>k\<close> up to
  \<open>2^53\<close> the line \<open>"# branch.ab +n -k"\<close> therefore gives \<open>ahead = n\<close> and \<open>behind = k\<close>, the
  absolute value of \<open>-k\<close>. A line whose trimmed remainder contains no match of the pattern
  leaves the summary, and so \<open>ahead\<close> and \<open>behind\<close>, as it was; and \<open>"# branch.ab +2 -1"\<close>
  yields \<open>ahead = 2\<close> and \<open>behind = 1\<close>.
\<close>

theorem C4_branch_ab_amended:
  "(trim rest = pre @ lit ''+'' @ m1 @ ws @ lit ''-'' @ m2 @ post
      \<and> cu CHR ''+'' \<notin> set pre
      \<and> signedNumber m1 \<and> ws \<noteq> [] \<and> list_all isSpace ws \<and> signedNumber m2
      \<and> (post = [] \<or> \<not> isDigit (hd post))
      \<and> safeInteger (intValue m1) \<and> safeInteger (intValue m2)
     \<longrightarrow> processLine summary (lit ''# branch.ab '' @ rest)
          = Inr (summary\<lparr> ahead := intValue m1, behind := intValue m2 \<rparr>))
   \<and> (safeInteger (int n) \<and> safeInteger (int k)
     \<longrightarrow> processLine summary (lit ''# branch.ab +'' @ showNat n @ lit '' -'' @ showNat k)
          = Inr (summary\<lparr> ahead := int n, behind := \<bar>- int k\<bar> \<rparr>))
   \<and> (\<not> containsAb (trim line)
     \<longrightarrow> processLine summary (lit ''# branch.ab '' @ line) = Inr summary)
   \<and> ahead (projr (parseStatus (lit ''# branch.ab +2 -1''))) = 2
   \<and> behind (projr (parseStatus (lit ''# branch.ab +2 -1''))) = 1"
proof -
  have general: "processLine summary (lit ''# branch.ab '' @ rest)
          = Inr (summary\<lparr> ahead := intValue m1, behind := intValue m2 \<rparr>)"
    if h: "trim rest = pre @ lit ''+'' @ m1 @ ws @ lit ''-'' @ m2 @ post"
      "cu CHR ''+'' \<notin> set pre" "signedNumber m1" "ws \<noteq> []" "list_all isSpace ws"
      "signedNumber m2" "post = [] \<or> \<not> isDigit (hd post)"
    for rest pre m1 ws m2 post
  proof -
    have "abSearch (trim rest) = Some (m1, m2)"
      unfolding h(1) using h(2,3,6,4,5,7) by (rule abSearch_signed)
    then show ?thesis
      using processLine_branch_ab [of summary rest]
      by (simp add: parseInt_signedNumber h(3,6) orZero_def)
  qed
  have numbers: "processLine summary (lit ''# branch.ab +'' @ showNat n @ lit '' -'' @ showNat k)
          = Inr (summary\<lparr> ahead := int n, behind := \<bar>- int k\<bar> \<rparr>)"
  proof -
    let ?core = "lit ''+'' @ showNat n @ lit '' '' @ lit ''-'' @ showNat k"
    have k: "showNat k \<noteq> []" "isDigit (last (showNat k))"
      using digits_hd [OF showNat_digits [of k]] by simp_all
    have "?core \<noteq> []" "\<not> isSpace (hd ?core)" "\<not> isSpace (last ?core)"
      using k isDigit_not_special [OF k(2)] by (simp_all add: lit_def plus_not_space)
    from trim_core [OF this, of "[]" "[]"]
    have tr: "trim ?core = [] @ lit ''+'' @ showNat n @ lit '' '' @ lit ''-'' @ showNat k @ []"
      by simp
    have sp: "lit '' '' \<noteq> []" "list_all isSpace (lit '' '')"
      by (simp_all add: lit_def cu_def isSpace_def)
    have "processLine summary (lit ''# branch.ab '' @ ?core)
          = Inr (summary\<lparr> ahead := intValue (showNat n), behind := intValue (showNat k) \<rparr>)"
      using tr _ digits_signedNumber [OF showNat_digits] sp digits_signedNumber [OF showNat_digits]
      by (rule general) simp_all
    then show ?thesis
      by (simp add: intValue_showNat lit_def)
  qed
  have nomatch: "processLine summary (lit ''# branch.ab '' @ line) = Inr summary"
    if "\<not> containsAb (trim line)"
    using that processLine_branch_ab [of summary line] by (simp add: abSearch_None_iff [symmetric])
  have example: "ahead (projr (parseStatus (lit ''# branch.ab +2 -1''))) = 2"
    "behind (projr (parseStatus (lit ''# branch.ab +2 -1''))) = 1"
    by (simp_all add: parse_defs)
  from general numbers nomatch example show ?thesis by blast
qed

theorem C4_branch_ab_amended_witness:
  "trim (lit ''x +1 --2;'' @ [0x0D]) = lit ''x '' @ lit ''+'' @ lit ''1'' @ lit '' '' @ lit ''-'' @ lit ''-2'' @ lit '';''
   \<and> signedNumber (lit ''1'') \<and> signedNumber (lit ''-2'')
   \<and> safeInteger (intValue (lit ''1'')) \<and> safeInteger (intValue (lit ''-2''))
   \<and> processLine initialSummary (lit ''# branch.ab x +1 --2;'' @ [0x0D])
       = Inr (initialSummary\<lparr> ahead := 1, behind := - 2 \<rparr>)
   \<and> processLine initialSummary (lit ''# branch.ab +'' @ showNat 12 @ lit '' -'' @ showNat 3)
       = Inr (initialSummary\<lparr> ahead := 12, behind := 3 \<rparr>)
   \<and> \<not> containsAb (trim (lit ''gone''))
   \<and> processLine initialSummary (lit ''# branch.ab gone'') = Inr initialSummary"
proof -
  have t: "trim (lit ''x +1 --2;'' @ [0x0D])
      = lit ''x '' @ lit ''+'' @ lit ''1'' @ lit '' '' @ lit ''-'' @ lit ''-2'' @ lit '';''"
    by (simp add: trim_def isSpace_def char_defs)
  have h: "cu CHR ''+'' \<notin> set (lit ''x '')" "signedNumber (lit ''1'')" "lit '' '' \<noteq> []"
    "list_all isSpace (lit '' '')" "signedNumber (lit ''-2'')"
    "lit '';'' = [] \<or> \<not> isDigit (hd (lit '';''))"
    by (simp_all add: signedNumber_def digits_def isDigit_def isSpace_def char_defs)
  have v: "intValue (lit ''1'') = 1" "intValue (lit ''-2'') = - 2"
    by (simp_all add: intValue_def digitsValue_def char_defs)
  have s: "safeInteger (intValue (lit ''1''))" "safeInteger (intValue (lit ''-2''))"
    "safeInteger (int 12)" "safeInteger (int 3)"
    unfolding v by (simp_all add: safeInteger_def)
  have "abSearch (trim (lit ''gone'')) = None"
    by (simp add: trim_def isSpace_def abMatchAt_def char_defs)
  then have n: "\<not> containsAb (trim (lit ''gone''))"
    by (simp add: abSearch_None_iff)
  note c = C4_branch_ab_amended [of "lit ''x +1 --2;'' @ [0x0D]" "lit ''x ''" "lit ''1''" "lit '' ''"
      "lit ''-2''" "lit '';''" initialSummary 12 3 "lit ''gone''"]
  from c t h s have a1: "processLine initialSummary (lit ''# branch.ab '' @ lit ''x +1 --2;'' @ [0x0D])
       = Inr (initialSummary\<lparr> ahead := intValue (lit ''1''), behind := intValue (lit ''-2'') \<rparr>)"
    by blast
  from c s have a2: "processLine initialSummary (lit ''# branch.ab +'' @ showNat 12 @ lit '' -'' @ showNat 3)
       = Inr (initialSummary\<lparr> ahead := int 12, behind := \<bar>- int 3\<bar> \<rparr>)"
    by blast
  from c n have a3: "processLine initialSummary (lit ''# branch.ab '' @ lit ''gone'') = Inr initialSummary"
    by blast
  from a1 have b1: "processLine initialSummary (lit ''# branch.ab x +1 --2;'' @ [0x0D])
       = Inr (initialSummary\<lparr> ahead := 1, behind := - 2 \<rparr>)"
    unfolding v by (simp add: lit_def)
  from a3 have b3: "processLine initialSummary (lit ''# branch.ab gone'') = Inr initialSummary"
    by (simp add: lit_def)
  from t h(2,5) s(1,2) b1 a2 n b3 show ?thesis by simp
qed

section \<open>The title of the simple message\<close>

lemma addPart_filter:
  "addPart parts n label =
     parts @ map (\<lambda>(n, label). showInt n @ lit '' '' @ label @ (if n = 1 then [] else lit ''s''))
               (filter (\<lambda>(n, label). n > 0) [(n, label)])"
  by (simp add: addPart_def plural_def)

lemma titleParts_spec: "titleParts summary opts = specParts summary opts"
proof -
  have four: "addPart (addPart (addPart (addPart parts n1 l1) n2 l2) n3 l3) n4 l4 =
      parts @ map (\<lambda>(n, label). showInt n @ lit '' '' @ label @ (if n = 1 then [] else lit ''s''))
               (filter (\<lambda>(n, label). n > 0) [(n1, l1), (n2, l2), (n3, l3), (n4, l4)])"
    for parts n1 l1 n2 l2 n3 l3 n4 l4
    by (simp add: addPart_def plural_def)
  show ?thesis
    unfolding titleParts_def specParts_def Let_def includeStaged_def truthy_def four
    by (simp del: filter.simps)
qed

lemma prefix_title: "prefix (titleCore summary opts) (buildSimpleMessage summary opts)"
  by (simp add: buildSimpleMessage_def title_def Let_def)

text \<open>
  C6: for every summary and options the parts that \<open>buildSimpleMessage\<close> collects are the parts
  the specification lists, in its order, each only when its count is greater than 0 (which
  for the non-negative counters of a summary is: non-zero) and formatted by \<open>plural\<close>
  (\<open>"1 file"\<close>, \<open>"2 files"\<close>); the title core is these parts joined with \<open>", "\<close>, or the literal
  \<open>"no changes"\<close> when there is none; and the message starts with the title core.
\<close>

theorem C6_title_parts:
  "titleParts summary opts = specParts summary opts
   \<and> titleCore summary opts =
       (if specParts summary opts = [] then lit ''no changes''
        else join (lit '', '') (specParts summary opts))
   \<and> prefix (titleCore summary opts) (buildSimpleMessage summary opts)
   \<and> plural 1 (lit ''file'') = lit ''1 file'' \<and> plural 2 (lit ''file'') = lit ''2 files''"
proof -
  have "plural 1 (lit ''file'') = lit ''1 file''" "plural 2 (lit ''file'') = lit ''2 files''"
    by (simp_all add: plural_def showInt_def showNat.simps char_defs)
  then show ?thesis
    using titleParts_spec [of summary opts] prefix_title [of summary opts]
    by (simp add: titleCore_def Let_def)
qed

theorem C6_title_parts_witness:
  "titleParts
     \<lparr> branch = Some (lit ''main''), ahead = 0, behind = 0,
       staged = \<lparr> Staged.added = 2, Staged.modified = 1, Staged.deleted = 0,
                  Staged.renamed = 1, Staged.copied = 1 \<rparr>,
       unstaged = \<lparr> Unstaged.modified = 0, Unstaged.deleted = 3 \<rparr>,
       untracked = 1, conflicts = 0,
       samples = \<lparr> Samples.added = [], Samples.modified = [], Samples.deleted = [],
                   Samples.renamed = [], Samples.untracked = [] \<rparr> \<rparr>
     \<lparr> stagedOnly = None, commit = None, simple = None, verbose = None, template = None \<rparr>
   = [lit ''2 addeds'', lit ''1 modified'', lit ''2 renameds'', lit ''3 deleted (unstaged)s'',
      lit ''1 untracked'']
   \<and> prefix (lit ''2 addeds, 1 modified, 2 renameds, 3 deleted (unstaged)s, 1 untracked'')
       (buildSimpleMessage
         \<lparr> branch = Some (lit ''main''), ahead = 0, behind = 0,
           staged = \<lparr> Staged.added = 2, Staged.modified = 1, Staged.deleted = 0,
                      Staged.renamed = 1, Staged.copied = 1 \<rparr>,
           unstaged = \<lparr> Unstaged.modified = 0, Unstaged.deleted = 3 \<rparr>,
           untracked = 1, conflicts = 0,
           samples = \<lparr> Samples.added = [], Samples.modified = [], Samples.deleted = [],
                       Samples.renamed = [], Samples.untracked = [] \<rparr> \<rparr>
         \<lparr> stagedOnly = None, commit = None, simple = None, verbose = None, template = None \<rparr>)"
proof -
  let ?S = "\<lparr> branch = Some (lit ''main''), ahead = 0, behind = 0,
       staged = \<lparr> Staged.added = 2, Staged.modified = 1, Staged.deleted = 0,
                  Staged.renamed = 1, Staged.copied = 1 \<rparr>,
       unstaged = \<lparr> Unstaged.modified = 0, Unstaged.deleted = 3 \<rparr>,
       untracked = 1, conflicts = 0,
       samples = \<lparr> Samples.added = [], Samples.modified = [], Samples.deleted = [],
                   Samples.renamed = [], Samples.untracked = [] \<rparr> \<rparr>"
  let ?O = "\<lparr> stagedOnly = None, commit = None, simple = None, verbose = None, template = None \<rparr>"
  have sp: "specParts ?S ?O =
      [lit ''2 addeds'', lit ''1 modified'', lit ''2 renameds'', lit ''3 deleted (unstaged)s'',
       lit ''1 untracked'']"
    by (simp add: specParts_def showInt_def showNat.simps char_defs)
  have j: "join (lit '', '')
      [lit ''2 addeds'', lit ''1 modified'', lit ''2 renameds'', lit ''3 deleted (unstaged)s'',
       lit ''1 untracked'']
     = lit ''2 addeds, 1 modified, 2 renameds, 3 deleted (unstaged)s, 1 untracked''"
    by (simp add: char_defs)
  have c: "titleParts ?S ?O = specParts ?S ?O"
    "titleCore ?S ?O =
       (if specParts ?S ?O = [] then lit ''no changes''
        else join (lit '', '') (specParts ?S ?O))"
    "prefix (titleCore ?S ?O) (buildSimpleMessage ?S ?O)"
    using C6_title_parts [of ?S ?O] by blast+
  from c(2) have "titleCore ?S ?O
      = lit ''2 addeds, 1 modified, 2 renameds, 3 deleted (unstaged)s, 1 untracked''"
    unfolding sp j by simp
  with c(1,3) sp show ?thesis by simp
qed

section \<open>Paths of a changed entry\<close>

lemma length_consHead: "ls \<noteq> [] \<Longrightarrow> length (consHead c ls) = length ls"
  by (cases ls) simp_all

lemma nth_consHead: "ls \<noteq> [] \<Longrightarrow> 0 < i \<Longrightarrow> consHead c ls ! i = ls ! i"
  by (cases ls; cases i) simp_all

lemma hd_consHead: "hd (consHead c ls) \<noteq> []"
  by (cases ls) simp_all

lemma splitWs_first: "l \<noteq> [] \<Longrightarrow> \<not> isSpace (hd l) \<Longrightarrow> hd (splitWs l) \<noteq> []"
  by (cases l) (simp_all add: hd_consHead)

lemma dropWhile_stops: "dropWhile P xs = [] \<or> \<not> P (hd (dropWhile P xs))"
  using hd_dropWhile [of P xs] by blast

lemma splitWs_middle:
  "0 < i \<Longrightarrow> Suc i < length (splitWs l) \<Longrightarrow> splitWs l ! i \<noteq> []"
proof (induction l arbitrary: i rule: splitWs.induct)
  case 1
  then show ?case by simp
next
  case (2 c cs)
  show ?case
  proof (cases "isSpace c")
    case True
    let ?r = "dropWhile isSpace cs"
    from True "2.prems" have len: "i < length (splitWs ?r)" by simp
    from True have nth: "splitWs (c # cs) ! i = splitWs ?r ! (i - 1)"
      using "2.prems"(1) by (cases i) simp_all
    show ?thesis
    proof (cases "i - 1")
      case 0
      have "?r \<noteq> []"
      proof
        assume "?r = []"
        then have "splitWs ?r = splitWs []" by (simp only:)
        then have "splitWs ?r = [[]]" by (simp only: splitWs.simps)
        with len "2.prems"(1) show False by simp
      qed
      with dropWhile_stops [of isSpace cs] have "hd (splitWs ?r) \<noteq> []"
        by (intro splitWs_first) auto
      moreover have "splitWs ?r \<noteq> []" by (rule splitWs_nonempty)
      ultimately have "splitWs ?r ! 0 \<noteq> []" by (simp add: hd_conv_nth)
      with nth 0 show ?thesis by simp
    next
      case (Suc k)
      with len "2.prems"(1) have "0 < i - 1" "Suc (i - 1) < length (splitWs ?r)" by simp_all
      from "2.IH"(1) [OF True this] nth show ?thesis by simp
    qed
  next
    case False
    have ne: "splitWs cs \<noteq> []" by (rule splitWs_nonempty)
    from False "2.prems" ne have "Suc i < length (splitWs cs)" by (simp add: length_consHead)
    from "2.IH"(2) [OF False "2.prems"(1) this] False "2.prems"(1) show ?thesis
      by (simp add: nth_consHead ne)
  qed
qed

lemma at_nth: "i < length xs \<Longrightarrow> at xs (int i) = Some (xs ! i)"
  by (simp add: at_def)

lemma stagedChange_renamed:
  assumes "i = Some (cu CHR ''R'') \<or> i = Some (cu CHR ''C'')"
  shows "Samples.renamed (samples (stagedChange i p f s))
       = pushSample (Samples.renamed (samples s)) (renameSample p f)"
  using assms by (auto simp: stagedChange_def cu_def)

lemma unstagedChange_renamed:
  "Samples.renamed (samples (unstagedChange w f s)) = Samples.renamed (samples s)"
  by (simp add: unstagedChange_def)

text \<open>
  C8 (as stated): the last white-space-separated field is the current path; a kind \<open>2\<close>
  line with at least 3 trailing fields records \<open>"orig -> new"\<close>, one with fewer records no
  original path. The code counts every element of \<open>line.split(/\s+/)\<close>, the kind and the
  XY code included, and takes the last element even when it is empty: \<open>"2 R. a"\<close>, with a
  single field after the XY code, records \<open>"R. -> a"\<close> (the XY code as original path), and
  \<open>"2 R. o n "\<close>, which ends in a space, records \<open>"n -> "\<close> (an empty current path).
\<close>

theorem C8_trailing_fields_counterexample:
  "Samples.renamed (samples (projr (parseStatus (lit ''2 R. a'')))) = [lit ''R. -> a'']
   \<and> Samples.renamed (samples (projr (parseStatus (lit ''2 R. o n '')))) = [lit ''n -> '']"
  by (simp add: parse_defs)

text \<open>
  C8 (amended): the fields of a line are the elements of \<open>line.split(/\s+/)\<close>, the kind and
  the XY code counted among them and a last element that is empty when the line ends in
  white space. For a line of kind \<open>1\<close> or \<open>2\<close> that the parser does not skip (at least two
  elements, the second of at least two code units), the current path is the last element:
  it is the path handed to the staged and the unstaged block. For a kind \<open>2\<close> line of at
  least 3 elements in all, the original path is the second-to-last element and the sample
  of a rename or copy is \<open>"orig -> new"\<close>; otherwise (kind \<open>1\<close>, or a kind \<open>2\<close> line of exactly 2
  elements) no original path is recorded and that sample is the current path alone. With
  index status \<open>R\<close> or \<open>C\<close> and room under the cap, this sample is appended to
  \<open>samples.renamed\<close>.
\<close>

theorem C8_paths_of_changed_entry:
  assumes "at line 0 = Some type" and "type = cu CHR ''1'' \<or> type = cu CHR ''2''"
    and "parts = splitWs line" and "2 \<le> length parts" and "2 \<le> length (parts ! 1)"
    and "origPath = (if type = cu CHR ''2'' \<and> 3 \<le> length parts
                     then Some (parts ! (length parts - 2)) else None)"
  shows "processLine summary line =
           Inr (unstagedChange (at (parts ! 1) 1) (last parts)
                 (stagedChange (at (parts ! 1) 0) origPath (last parts) summary))
       \<and> (type = cu CHR ''2'' \<and> 3 \<le> length parts
            \<longrightarrow> renameSample origPath (last parts)
                  = parts ! (length parts - 2) @ lit '' -> '' @ last parts)
       \<and> (\<not> (type = cu CHR ''2'' \<and> 3 \<le> length parts)
            \<longrightarrow> origPath = None \<and> renameSample origPath (last parts) = last parts)
       \<and> ((at (parts ! 1) 0 = Some (cu CHR ''R'') \<or> at (parts ! 1) 0 = Some (cu CHR ''C''))
            \<and> length (Samples.renamed (samples summary)) < MAX_FILE_SAMPLES
            \<longrightarrow> Samples.renamed (samples (projr (processLine summary line)))
                  = Samples.renamed (samples summary) @ [renameSample origPath (last parts)])"
proof -
  have ne: "parts \<noteq> []" using assms(4) by auto
  from assms(1,2) have nohash: "\<not> startsWith line (lit ''# '')"
    by (cases line) (auto simp: startsWith_def at_def char_defs)
  have xy: "at parts 1 = Some (parts ! 1)"
    using assms(4) at_nth [of 1 parts] by simp
  have orig: "(if type = cu CHR ''2'' \<and> 3 \<le> length parts
               then at parts (int (length parts) - 2) else None) = origPath"
    using at_nth [of "length parts - 2" parts] assms(6) by (auto simp: of_nat_diff)
  have "changedEntry summary type parts =
          Inr (unstagedChange (at (parts ! 1) 1) (last parts)
                (stagedChange (at (parts ! 1) 0) origPath (last parts) summary))"
    using assms(4,5) xy at_last [OF ne] orig
    by (auto simp: changedEntry_def Let_def)
  with nohash assms(1,2,3) have main: "processLine summary line =
           Inr (unstagedChange (at (parts ! 1) 1) (last parts)
                 (stagedChange (at (parts ! 1) 0) origPath (last parts) summary))"
    by (auto simp: processLine_def cu_def)
  have two: "renameSample origPath (last parts)
                  = parts ! (length parts - 2) @ lit '' -> '' @ last parts"
    if h: "type = cu CHR ''2'' \<and> 3 \<le> length parts"
  proof -
    from h have "3 \<le> length (splitWs line)" using assms(3) by simp
    then have "0 < length (splitWs line) - 2" "Suc (length (splitWs line) - 2) < length (splitWs line)"
      by linarith+
    then have "0 < length parts - 2" "Suc (length parts - 2) < length (splitWs line)"
      using assms(3) by simp_all
    from splitWs_middle [OF this] assms(3) have "parts ! (length parts - 2) \<noteq> []" by simp
    with h assms(6) show ?thesis by (simp add: renameSample_def)
  qed
  have one: "origPath = None \<and> renameSample origPath (last parts) = last parts"
    if "\<not> (type = cu CHR ''2'' \<and> 3 \<le> length parts)"
    using that assms(6) by (auto simp: renameSample_def)
  have ren: "Samples.renamed (samples (projr (processLine summary line)))
                  = Samples.renamed (samples summary) @ [renameSample origPath (last parts)]"
    if "(at (parts ! 1) 0 = Some (cu CHR ''R'') \<or> at (parts ! 1) 0 = Some (cu CHR ''C''))
            \<and> length (Samples.renamed (samples summary)) < MAX_FILE_SAMPLES"
    using that by (simp add: main unstagedChange_renamed stagedChange_renamed pushSample_def)
  from main two one ren show ?thesis by blast
qed


theorem C8_paths_of_changed_entry_witness:
  "at (lit ''2 R. o n'') 0 = Some (cu CHR ''2'')
   \<and> splitWs (lit ''2 R. o n'') = [lit ''2'', lit ''R.'', lit ''o'', lit ''n'']
   \<and> Samples.renamed (samples (projr (processLine initialSummary (lit ''2 R. o n''))))
       = [lit ''o -> n'']"
proof -
  let ?parts = "[lit ''2'', lit ''R.'', lit ''o'', lit ''n'']"
  have h1: "at (lit ''2 R. o n'') 0 = Some (cu CHR ''2'')"
    by (simp add: at_def char_defs)
  have h2: "cu CHR ''2'' = cu CHR ''1'' \<or> cu CHR ''2'' = cu CHR ''2''"
    by simp
  have sp: "splitWs (lit ''2 R. o n'') = ?parts"
    by (simp add: char_defs isSpace_def)
  have h3: "?parts = splitWs (lit ''2 R. o n'')"
    by (simp only: sp)
  have h4: "2 \<le> length ?parts" by simp
  have h5: "2 \<le> length (?parts ! 1)" by (simp add: lit_def)
  have h6: "Some (lit ''o'') = (if cu CHR ''2'' = cu CHR ''2'' \<and> 3 \<le> length ?parts
                     then Some (?parts ! (length ?parts - 2)) else None)"
    by simp
  note c = C8_paths_of_changed_entry [OF h1 h2 h3 h4 h5 h6, of initialSummary]
  have g: "at (?parts ! 1) 0 = Some (cu CHR ''R'')"
    "length (Samples.renamed (samples initialSummary)) < MAX_FILE_SAMPLES"
    by (simp_all add: initialSummary_def MAX_FILE_SAMPLES_def at_def char_defs)
  from c have "renameSample (Some (lit ''o'')) (last ?parts)
                  = ?parts ! (length ?parts - 2) @ lit '' -> '' @ last ?parts"
    by simp
  then have r: "renameSample (Some (lit ''o'')) (last ?parts) = lit ''o -> n''"
    by (simp add: lit_def)
  from c g have "Samples.renamed (samples (projr (processLine initialSummary (lit ''2 R. o n''))))
       = Samples.renamed (samples initialSummary) @ [renameSample (Some (lit ''o'')) (last ?parts)]"
    by blast
  then have "Samples.renamed (samples (projr (processLine initialSummary (lit ''2 R. o n''))))
       = [lit ''o -> n'']"
    unfolding r by (simp add: initialSummary_def)
  with h1 sp show ?thesis by simp
qed

section \<open>The changed files\<close>

lemma set_setAdd: "set (setAdd files f) = insert f (set files)"
  by (auto simp: setAdd_def)

lemma distinct_setAdd: "distinct files \<Longrightarrow> distinct (setAdd files f)"
  by (simp add: setAdd_def)

lemma set_addRenamed: "set (addRenamed files f) = set files \<union> pathsOf f"
  by (auto simp: addRenamed_def pathsOf_def set_setAdd split: option.splits)

lemma distinct_addRenamed: "distinct files \<Longrightarrow> distinct (addRenamed files f)"
  by (simp add: addRenamed_def distinct_setAdd split: option.splits prod.splits)

lemma set_foldl_setAdd: "set (foldl setAdd files xs) = set files \<union> set xs"
  by (induction xs arbitrary: files) (auto simp: set_setAdd)

lemma distinct_foldl_setAdd: "distinct files \<Longrightarrow> distinct (foldl setAdd files xs)"
  by (induction xs arbitrary: files) (simp_all add: distinct_setAdd)

lemma set_foldl_addRenamed: "set (foldl addRenamed files xs) = set files \<union> (\<Union>f \<in> set xs. pathsOf f)"
  by (induction xs arbitrary: files) (auto simp: set_addRenamed)

lemma distinct_foldl_addRenamed: "distinct files \<Longrightarrow> distinct (foldl addRenamed files xs)"
  by (induction xs arbitrary: files) (simp_all add: distinct_addRenamed)

lemma set_getChangedFiles:
  "set (getChangedFiles s b) =
     set (Samples.added (samples s)) \<union> set (Samples.modified (samples s))
     \<union> set (Samples.deleted (samples s))
     \<union> (if b then {} else set (Samples.untracked (samples s)))
     \<union> (\<Union>f \<in> set (Samples.renamed (samples s)). pathsOf f)"
  by (auto simp: getChangedFiles_def set_foldl_addRenamed set_foldl_setAdd)

lemma distinct_getChangedFiles: "distinct (getChangedFiles s b)"
  by (simp add: getChangedFiles_def distinct_foldl_addRenamed distinct_foldl_setAdd)

text \<open>The arrow of a well-formed entry is found where it was written.\<close>

lemma lineTerminator_space: "isLineTerminator c \<Longrightarrow> isSpace c"
  by (auto simp: isLineTerminator_def isSpace_def)

lemma noSpace_dotPlus: "p \<noteq> [] \<Longrightarrow> noSpace p \<Longrightarrow> dotPlusToEnd p"
  by (auto simp: dotPlusToEnd_def noSpace_def list_all_iff list_ex_iff dest: lineTerminator_space)

lemma arrowTail_arrow:
  assumes "new \<noteq> []" and "noSpace new"
  shows "arrowTail (lit '' -> '' @ new) = Some new"
proof -
  obtain c cs where new: "new = c # cs" using assms(1) by (cases new) simp_all
  with assms(2) have c: "\<not> isSpace c" by (simp add: noSpace_def)
  have sp: "isSpace (cu CHR '' '')" "\<not> isSpace (cu CHR ''-'')"
    by (simp_all add: isSpace_def cu_def)
  show ?thesis
    using sp c noSpace_dotPlus [OF assms] new
    by (simp add: arrowTail_def lit_def startsWith_def)
qed

lemma arrowTail_none:
  assumes "r \<noteq> []" and "noSpace r" and "\<not> prefix (lit ''->'') r"
  shows "arrowTail (r @ lit '' -> '' @ new) = None"
proof -
  obtain c cs where r: "r = c # cs" using assms(1) by (cases r) simp_all
  with assms(2) have c: "\<not> isSpace c" by (simp add: noSpace_def)
  then have dw: "dropWhile isSpace (r @ lit '' -> '' @ new) = r @ lit '' -> '' @ new"
    by (simp add: r)
  have "\<not> startsWith (r @ lit '' -> '' @ new) (lit ''->'')"
  proof (cases cs)
    case Nil
    then show ?thesis by (simp add: r startsWith_def lit_def cu_def)
  next
    case (Cons d ds)
    with assms(3) show ?thesis by (auto simp: r startsWith_def lit_def)
  qed
  then show ?thesis by (simp add: arrowTail_def dw)
qed

lemma renameFrom_wellformed:
  assumes "orig \<noteq> []" and "noSpace orig" and "\<not> sublist (lit ''->'') (tl orig)"
    and "new \<noteq> []" and "noSpace new"
  shows "renameFrom p (orig @ lit '' -> '' @ new) = Some (p @ orig, new)"
  using assms(1-3)
proof (induction orig arbitrary: p)
  case Nil
  then show ?case by simp
next
  case (Cons c cs)
  from Cons.prems(2) have c: "\<not> isSpace c" and cs: "noSpace cs"
    by (simp_all add: noSpace_def)
  from c have nlt: "\<not> isLineTerminator c" using lineTerminator_space by blast
  show ?case
  proof (cases "cs = []")
    case True
    with nlt arrowTail_arrow [OF assms(4,5)] show ?thesis by simp
  next
    case False
    from Cons.prems(3) have ns: "\<not> sublist (lit ''->'') cs" by simp
    then have "\<not> prefix (lit ''->'') cs" by (meson prefix_imp_sublist)
    from arrowTail_none [OF False cs this]
    have none: "arrowTail (cs @ lit '' -> '' @ new) = None" .
    from ns have "\<not> sublist (lit ''->'') (tl cs)"
      by (meson sublist_order.order.trans sublist_tl)
    from Cons.IH [OF False cs this] nlt none show ?thesis by simp
  qed
qed

lemma renameMatch_wellformed:
  assumes "orig \<noteq> []" and "noSpace orig" and "\<not> sublist (lit ''->'') (tl orig)"
    and "new \<noteq> []" and "noSpace new"
  shows "renameMatch (orig @ lit '' -> '' @ new) = Some (orig, new)"
  using renameFrom_wellformed [OF assms, of "[]"] by (simp add: renameMatch_def)

text \<open>Without an arrow there is no match.\<close>

lemma arrowTail_sublist: "arrowTail r = Some u \<Longrightarrow> sublist (lit ''->'') r"
proof -
  assume "arrowTail r = Some u"
  then have "startsWith (dropWhile isSpace r) (lit ''->'')"
    by (simp add: arrowTail_def Let_def split: if_splits)
  then have "prefix (lit ''->'') (dropWhile isSpace r)"
    by (metis startsWith_def take_is_prefix)
  then have "sublist (lit ''->'') (dropWhile isSpace r)" by (rule prefix_imp_sublist)
  then show ?thesis
    by (meson sublist_order.order.trans sublist_dropWhile)
qed

lemma renameFrom_sublist: "renameFrom p r = Some m \<Longrightarrow> sublist (lit ''->'') r"
proof (induction r arbitrary: p)
  case Nil
  then show ?case by simp
next
  case (Cons c cs)
  show ?case
  proof (cases "arrowTail cs")
    case None
    with Cons.prems have "renameFrom (p @ [c]) cs = Some m" by (simp split: if_splits)
    from Cons.IH [OF this] show ?thesis by (simp add: sublist_Cons_right)
  next
    case (Some u)
    from arrowTail_sublist [OF this] show ?thesis by (simp add: sublist_Cons_right)
  qed
qed

lemma renameMatch_no_arrow: "\<not> sublist (lit ''->'') f \<Longrightarrow> renameMatch f = None"
  using renameFrom_sublist [of "[]" f] by (cases "renameMatch f") (auto simp: renameMatch_def)

lemmas files_defs =
  getChangedFiles_def addRenamed_def setAdd_def renameMatch_def arrowTail_def dotPlusToEnd_def
  isLineTerminator_def

text \<open>
  C5 (as stated): for every entry of \<open>samples.renamed\<close> containing the separator \<open>" -> "\<close> both
  the original and the new path are in the result, and an entry lacking the separator is
  added as a single literal path. The regular expression takes the first arrow, with or
  without white space around it: the entry \<open>"a->b -> c"\<close>, which the parser records for a
  rename of \<open>a->b\<close> to \<open>c\<close>, contributes \<open>"a"\<close> and \<open>"b -> c"\<close>, and the entry \<open>"a->b"\<close>, which
  has no \<open>" -> "\<close>, contributes \<open>"a"\<close> and \<open>"b"\<close>.
\<close>

theorem C5_rename_pairs_counterexample:
  "Samples.renamed (samples (projr (parseStatus (lit ''2 R. x a->b c'')))) = [lit ''a->b -> c'']
   \<and> getChangedFiles (projr (parseStatus (lit ''2 R. x a->b c''))) False
       = [lit ''a'', lit ''b -> c'']
   \<and> Samples.renamed (samples (projr (parseStatus (lit ''1 R. x a->b'')))) = [lit ''a->b'']
   \<and> getChangedFiles (projr (parseStatus (lit ''1 R. x a->b''))) False = [lit ''a'', lit ''b'']"
  by (simp add: parse_defs files_defs)

text \<open>
  C5 (amended): for every summary \<open>getChangedFiles\<close> returns a list of paths without
  duplicates; for every entry of \<open>samples.renamed\<close> of the form \<open>orig -> new\<close>, where \<open>orig\<close> and
  \<open>new\<close> are non-empty and free of white space and \<open>orig\<close> contains no \<open>"->"\<close> after its
  first code unit, both \<open>orig\<close> and \<open>new\<close> are in the result; an entry that contains no \<open>"->"\<close>
  is added as a single literal path; the result, as a set, depends only on which entries
  the sample lists hold, not on their order (and so is the same for two calls on the same
  summary).
\<close>

theorem C5_changed_files:
  "distinct (getChangedFiles summary only)
   \<and> (f \<in> set (Samples.renamed (samples summary)) \<and> f = orig @ lit '' -> '' @ new
        \<and> orig \<noteq> [] \<and> noSpace orig \<and> \<not> sublist (lit ''->'') (tl orig)
        \<and> new \<noteq> [] \<and> noSpace new
      \<longrightarrow> orig \<in> set (getChangedFiles summary only)
          \<and> new \<in> set (getChangedFiles summary only))
   \<and> (g \<in> set (Samples.renamed (samples summary)) \<and> \<not> sublist (lit ''->'') g
      \<longrightarrow> addRenamed files g = setAdd files g \<and> g \<in> set (getChangedFiles summary only))
   \<and> (sameSamples summary summary'
      \<longrightarrow> set (getChangedFiles summary only) = set (getChangedFiles summary' only))"
proof (intro conjI impI)
  show "distinct (getChangedFiles summary only)"
    by (rule distinct_getChangedFiles)
next
  assume h: "f \<in> set (Samples.renamed (samples summary)) \<and> f = orig @ lit '' -> '' @ new
        \<and> orig \<noteq> [] \<and> noSpace orig \<and> \<not> sublist (lit ''->'') (tl orig)
        \<and> new \<noteq> [] \<and> noSpace new"
  then have "renameMatch f = Some (orig, new)"
    using renameMatch_wellformed [of orig new] by simp
  then have "pathsOf f = {orig, new}" by (simp add: pathsOf_def)
  with h have "{orig, new} \<subseteq> set (getChangedFiles summary only)"
    unfolding set_getChangedFiles by blast
  then show "orig \<in> set (getChangedFiles summary only)"
    and "new \<in> set (getChangedFiles summary only)" by simp_all
next
  assume h: "g \<in> set (Samples.renamed (samples summary)) \<and> \<not> sublist (lit ''->'') g"
  then have n: "renameMatch g = None" by (simp add: renameMatch_no_arrow)
  then show "addRenamed files g = setAdd files g" by (simp add: addRenamed_def)
  from n have "pathsOf g = {g}" by (simp add: pathsOf_def)
  with h show "g \<in> set (getChangedFiles summary only)"
    unfolding set_getChangedFiles by blast
next
  assume "sameSamples summary summary'"
  then show "set (getChangedFiles summary only) = set (getChangedFiles summary' only)"
    unfolding set_getChangedFiles by (simp add: sameSamples_def)
qed

theorem C5_changed_files_witness:
  "lit ''old.js'' \<in> set (getChangedFiles
      (initialSummary\<lparr> samples := \<lparr> Samples.added = [lit ''file1.js''],
          Samples.modified = [lit ''file2.js''], Samples.deleted = [lit ''file3.js''],
          Samples.renamed = [lit ''old.js -> new.js'', lit ''plain.txt''],
          Samples.untracked = [lit ''file4.js''] \<rparr> \<rparr>) False)
   \<and> lit ''new.js'' \<in> set (getChangedFiles
      (initialSummary\<lparr> samples := \<lparr> Samples.added = [lit ''file1.js''],
          Samples.modified = [lit ''file2.js''], Samples.deleted = [lit ''file3.js''],
          Samples.renamed = [lit ''old.js -> new.js'', lit ''plain.txt''],
          Samples.untracked = [lit ''file4.js''] \<rparr> \<rparr>) False)
   \<and> lit ''plain.txt'' \<in> set (getChangedFiles
      (initialSummary\<lparr> samples := \<lparr> Samples.added = [lit ''file1.js''],
          Samples.modified = [lit ''file2.js''], Samples.deleted = [lit ''file3.js''],
          Samples.renamed = [lit ''old.js -> new.js'', lit ''plain.txt''],
          Samples.untracked = [lit ''file4.js''] \<rparr> \<rparr>) False)
   \<and> set (getChangedFiles
      (initialSummary\<lparr> samples := \<lparr> Samples.added = [lit ''file1.js''],
          Samples.modified = [lit ''file2.js''], Samples.deleted = [lit ''file3.js''],
          Samples.renamed = [lit ''old.js -> new.js'', lit ''plain.txt''],
          Samples.untracked = [lit ''file4.js''] \<rparr> \<rparr>) False)
     = set (getChangedFiles
      (initialSummary\<lparr> samples := \<lparr> Samples.added = [lit ''file1.js''],
          Samples.modified = [lit ''file2.js''], Samples.deleted = [lit ''file3.js''],
          Samples.renamed = [lit ''plain.txt'', lit ''old.js -> new.js''],
          Samples.untracked = [lit ''file4.js''] \<rparr> \<rparr>) False)"
proof -
  let ?S = "initialSummary\<lparr> samples := \<lparr> Samples.added = [lit ''file1.js''],
          Samples.modified = [lit ''file2.js''], Samples.deleted = [lit ''file3.js''],
          Samples.renamed = [lit ''old.js -> new.js'', lit ''plain.txt''],
          Samples.untracked = [lit ''file4.js''] \<rparr> \<rparr>"
  let ?S' = "initialSummary\<lparr> samples := \<lparr> Samples.added = [lit ''file1.js''],
          Samples.modified = [lit ''file2.js''], Samples.deleted = [lit ''file3.js''],
          Samples.renamed = [lit ''plain.txt'', lit ''old.js -> new.js''],
          Samples.untracked = [lit ''file4.js''] \<rparr> \<rparr>"
  have h1: "lit ''old.js -> new.js'' \<in> set (Samples.renamed (samples ?S))
        \<and> lit ''old.js -> new.js'' = lit ''old.js'' @ lit '' -> '' @ lit ''new.js''
        \<and> lit ''old.js'' \<noteq> [] \<and> noSpace (lit ''old.js'')
        \<and> \<not> sublist (lit ''->'') (tl (lit ''old.js''))
        \<and> lit ''new.js'' \<noteq> [] \<and> noSpace (lit ''new.js'')"
    by (simp add: noSpace_def isSpace_def char_defs sublist_Cons_right)
  have h2: "lit ''plain.txt'' \<in> set (Samples.renamed (samples ?S))
        \<and> \<not> sublist (lit ''->'') (lit ''plain.txt'')"
    by (simp add: char_defs sublist_Cons_right)
  have h3: "sameSamples ?S ?S'"
    by (auto simp: sameSamples_def)
  from C5_changed_files [of ?S False "lit ''old.js -> new.js''" "lit ''old.js''" "lit ''new.js''"
      "lit ''plain.txt''" "[]" ?S'] h1 h2 h3
  show ?thesis by blast
qed

section \<open>The overflow suffix\<close>

lemma fifteen_untracked:
  "parseStatus (lit ''? a\<newline>? b\<newline>? c\<newline>? d\<newline>? e\<newline>? f\<newline>? g\<newline>? h\<newline>? i\<newline>? j\<newline>? k\<newline>? l\<newline>? m\<newline>? n\<newline>? o\<newline>'') =
     Inr \<lparr> branch = None, ahead = 0, behind = 0,
           staged = \<lparr> Staged.added = 0, Staged.modified = 0, Staged.deleted = 0,
                      Staged.renamed = 0, Staged.copied = 0 \<rparr>,
           unstaged = \<lparr> Unstaged.modified = 0, Unstaged.deleted = 0 \<rparr>,
           untracked = 15, conflicts = 0,
           samples = \<lparr> Samples.added = [], Samples.modified = [], Samples.deleted = [],
                       Samples.renamed = [],
                       Samples.untracked = [lit ''a'', lit ''b'', lit ''c'', lit ''d'', lit ''e'',
                                            lit ''f'', lit ''g'', lit ''h'', lit ''i'', lit ''j''] \<rparr> \<rparr>"
  by (simp add: parse_defs)

lemma fifteen_untracked_message:
  "buildSimpleMessage
     \<lparr> branch = None, ahead = 0, behind = 0,
           staged = \<lparr> Staged.added = 0, Staged.modified = 0, Staged.deleted = 0,
                      Staged.renamed = 0, Staged.copied = 0 \<rparr>,
           unstaged = \<lparr> Unstaged.modified = 0, Unstaged.deleted = 0 \<rparr>,
           untracked = 15, conflicts = 0,
           samples = \<lparr> Samples.added = [], Samples.modified = [], Samples.deleted = [],
                       Samples.renamed = [],
                       Samples.untracked = [lit ''a'', lit ''b'', lit ''c'', lit ''d'', lit ''e'',
                                            lit ''f'', lit ''g'', lit ''h'', lit ''i'', lit ''j''] \<rparr> \<rparr>
     \<lparr> stagedOnly = None, commit = None, simple = None, verbose = None, template = None \<rparr>
   = lit ''15 untrackeds\<newline>\<newline>untracked: a, b, c, d, e, f, g, h, i, j''"
  by code_simp

text \<open>
  C1 says that a category whose true counter exceeds the sample cap gets a body line ending
  in \<open>" (+<overflow> more)"\<close>, the overflow being the counter minus the samples shown.
  \<open>limitList\<close> computes the overflow from the length of the sample list, which the parser has
  already cut to the cap. For fifteen untracked files the counter is 15, ten samples are
  kept, and the body line ends with the tenth sample: the five files left out are not
  announced.
\<close>

theorem C1_overflow_not_reported:
  "untracked (projr (parseStatus (lit ''? a\<newline>? b\<newline>? c\<newline>? d\<newline>? e\<newline>? f\<newline>? g\<newline>? h\<newline>? i\<newline>? j\<newline>? k\<newline>? l\<newline>? m\<newline>? n\<newline>? o\<newline>''))) = 15
   \<and> length (Samples.untracked (samples (projr (parseStatus (lit ''? a\<newline>? b\<newline>? c\<newline>? d\<newline>? e\<newline>? f\<newline>? g\<newline>? h\<newline>? i\<newline>? j\<newline>? k\<newline>? l\<newline>? m\<newline>? n\<newline>? o\<newline>''))))) = 10
   \<and> buildSimpleMessage (projr (parseStatus (lit ''? a\<newline>? b\<newline>? c\<newline>? d\<newline>? e\<newline>? f\<newline>? g\<newline>? h\<newline>? i\<newline>? j\<newline>? k\<newline>? l\<newline>? m\<newline>? n\<newline>? o\<newline>'')))
       \<lparr> stagedOnly = None, commit = None, simple = None, verbose = None, template = None \<rparr>
     = lit ''15 untrackeds\<newline>\<newline>untracked: a, b, c, d, e, f, g, h, i, j''"
  unfolding fifteen_untracked by (simp add: fifteen_untracked_message)

end
